theory Spec2Isabelle
  imports Main
begin

section \<open>Values of the Python runtime\<close>

text \<open>
  The program under verification is \<^verbatim>\<open>main.py\<close>, a FastAPI service that sends an
  advertisement to a remote classifier, parses the classifier's free-text reply, stores the
  result and serves it back. Everything the claims are about is decided by a handful of
  library functions (\<^verbatim>\<open>re.search\<close>, \<^verbatim>\<open>json.loads\<close>, \<^verbatim>\<open>str\<close>,
  \<^verbatim>\<open>ast.literal_eval\<close>) and by the order in which the handlers call them, so the
  library functions are modelled first and the handlers afterwards.

  A Python \<^verbatim>\<open>str\<close> is a sequence of Unicode code points; it is modelled as a list of
  natural numbers, one per code point. \<open>pys\<close> embeds an ASCII literal. Character codes used
  below: \<open>0x22\<close> double quote, \<open>0x27\<close> single quote, \<open>0x2C\<close> comma, \<open>0x2D\<close> minus,
  \<open>0x2E\<close> full stop, \<open>0x3A\<close> colon, \<open>0x5B\<close> and \<open>0x5D\<close> square brackets, \<open>0x5C\<close>
  backslash, \<open>0x7B\<close> and \<open>0x7D\<close> braces, \<open>0x30\<close>..\<open>0x39\<close> digits.
\<close>

type_synonym pystr = "nat list"

definition pys :: "string \<Rightarrow> pystr" where
  "pys s = map of_char s"

text \<open>
  A float is not computed with: binary64 arithmetic is outside this model. A finite float
  is represented by the decimal literal it was read from (which denotes it); the three
  non-finite floats are separate constructors.
\<close>

datatype pyfloat = FloatLit pystr | FloatNaN | FloatInf | FloatNegInf

text \<open>
  The values \<^verbatim>\<open>json.loads\<close> builds. A \<^verbatim>\<open>dict\<close> is an association list in insertion
  order; its keys are strings, as JSON object keys are.
\<close>

datatype pyval =
    PyNone
  | PyBool bool
  | PyInt int
  | PyFloat pyfloat
  | PyStr pystr
  | PyList "pyval list"
  | PyDict "(pystr \<times> pyval) list"

text \<open>The exceptions that can leave a handler, as values.\<close>

datatype exn =
    KeyError pystr
  | TypeError
  | LiteralError
  | ValidationError
  | HTTPException nat pystr
  | RequestValidationError
  | DatabaseError

text \<open>
  \<open>KeyError k\<close>: a missing dict key. \<open>TypeError\<close>: subscripting a value that is not a dict
  with a string. \<open>LiteralError\<close>: the \<^verbatim>\<open>ValueError\<close> or \<^verbatim>\<open>SyntaxError\<close> of
  \<^verbatim>\<open>ast.literal_eval\<close>. \<open>ValidationError\<close>: pydantic refusing a \<^verbatim>\<open>ScanResponse\<close>.
  \<open>HTTPException\<close>: raised by a handler with a status code. \<open>RequestValidationError\<close>:
  FastAPI's 422 for a request that does not bind. \<open>DatabaseError\<close>: the database engine
  refusing a statement.
\<close>

text \<open>\<^verbatim>\<open>d[k] = v\<close> on a dict: an existing key keeps its position and takes the new value.\<close>

fun dict_set :: "(pystr \<times> pyval) list \<Rightarrow> pystr \<Rightarrow> pyval \<Rightarrow> (pystr \<times> pyval) list" where
  "dict_set [] k v = [(k, v)]"
| "dict_set ((k', v') # kvs) k v =
     (if k' = k then (k, v) # kvs else (k', v') # dict_set kvs k v)"

text \<open>\<^verbatim>\<open>dict(pairs)\<close>: of two pairs with one key the later value wins.\<close>

definition dict_of_pairs :: "(pystr \<times> pyval) list \<Rightarrow> (pystr \<times> pyval) list" where
  "dict_of_pairs pairs = foldl (\<lambda>d (k, v). dict_set d k v) [] pairs"

text \<open>\<^verbatim>\<open>obj[key]\<close> with a string key: only a dict can be subscripted so.\<close>

definition getitem :: "pyval \<Rightarrow> pystr \<Rightarrow> exn + pyval" where
  "getitem obj key =
     (case obj of
        PyDict kvs \<Rightarrow> (case map_of kvs key of None \<Rightarrow> Inl (KeyError key) | Some v \<Rightarrow> Inr v)
      | _ \<Rightarrow> Inl TypeError)"

section \<open>re.search\<close>

text \<open>
  The two patterns of \<^verbatim>\<open>analyze_with_ai\<close> are sequences of literals and of \<^verbatim>\<open>.*\<close> or
  \<^verbatim>\<open>.*?\<close> under \<^verbatim>\<open>re.DOTALL\<close> (where \<^verbatim>\<open>.\<close> matches every character). The
  matcher below is the backtracking search of the \<^verbatim>\<open>re\<close> module for such patterns:
  a lazy \<^verbatim>\<open>.*?\<close> tries the shortest extent first, a greedy \<^verbatim>\<open>.*\<close> the longest, and
  \<^verbatim>\<open>re.search\<close> tries the start positions from left to right. Each \<^verbatim>\<open>.*\<close> is recorded
  as a group.
\<close>

fun first_some :: "('a \<Rightarrow> 'b option) \<Rightarrow> 'a list \<Rightarrow> 'b option" where
  "first_some f [] = None"
| "first_some f (x # xs) = (case f x of Some y \<Rightarrow> Some y | None \<Rightarrow> first_some f xs)"

datatype re_item = Lit pystr | Any_lazy | Any_greedy

text \<open>\<open>re_match p s\<close>: the groups and the unmatched rest when \<open>p\<close> matches a prefix of \<open>s\<close>.\<close>

fun re_match :: "re_item list \<Rightarrow> pystr \<Rightarrow> (pystr list \<times> pystr) option" where
  "re_match [] s = Some ([], s)"
| "re_match (Lit l # ps) s =
     (if take (length l) s = l then re_match ps (drop (length l) s) else None)"
| "re_match (Any_lazy # ps) s =
     first_some
       (\<lambda>k. case re_match ps (drop k s) of
               None \<Rightarrow> None
             | Some (groups, rest) \<Rightarrow> Some (take k s # groups, rest))
       [0..<Suc (length s)]"
| "re_match (Any_greedy # ps) s =
     first_some
       (\<lambda>k. case re_match ps (drop k s) of
               None \<Rightarrow> None
             | Some (groups, rest) \<Rightarrow> Some (take k s # groups, rest))
       (rev [0..<Suc (length s)])"

text \<open>
  \<open>re_search p s\<close>: the match object as the list of its groups, group 0 (the whole match)
  first; \<open>None\<close> when no start position matches.
\<close>

definition re_search :: "re_item list \<Rightarrow> pystr \<Rightarrow> (pystr list) option" where
  "re_search p s =
     first_some
       (\<lambda>i. case re_match p (drop i s) of
               None \<Rightarrow> None
             | Some (groups, rest) \<Rightarrow>
                 Some (take (length (drop i s) - length rest) (drop i s) # groups))
       [0..<Suc (length s)]"

section \<open>json.loads\<close>

text \<open>
  The decoder of CPython's \<^verbatim>\<open>json\<close> module with its default settings: white space is
  space, tab, line feed and carriage return; a string must not hold a raw control
  character; \<^verbatim>\<open>NaN\<close>, \<^verbatim>\<open>Infinity\<close> and \<^verbatim>\<open>-Infinity\<close> are accepted; a number
  with a fraction or an exponent is a float, any other an int; a repeated object key keeps
  its last value; text after the value is an error. Every failure of the decoder
  (\<^verbatim>\<open>JSONDecodeError\<close>) is the result \<open>None\<close>. The interpreter's limits (recursion
  depth, digits of an int) are not modelled.
\<close>

definition is_json_ws :: "nat \<Rightarrow> bool" where
  "is_json_ws c \<longleftrightarrow> c = 0x20 \<or> c = 0x09 \<or> c = 0x0A \<or> c = 0x0D"

definition skip_ws :: "pystr \<Rightarrow> pystr" where
  "skip_ws s = dropWhile is_json_ws s"

definition is_digit :: "nat \<Rightarrow> bool" where
  "is_digit c \<longleftrightarrow> 0x30 \<le> c \<and> c \<le> 0x39"

definition int_of_digits :: "pystr \<Rightarrow> nat" where
  "int_of_digits ds = foldl (\<lambda>a d. 10 * a + (d - 0x30)) 0 ds"

definition hex_value :: "nat \<Rightarrow> nat option" where
  "hex_value c =
     (if 0x30 \<le> c \<and> c \<le> 0x39 then Some (c - 0x30)
      else if 0x61 \<le> c \<and> c \<le> 0x66 then Some (c - 0x61 + 10)
      else if 0x41 \<le> c \<and> c \<le> 0x46 then Some (c - 0x41 + 10)
      else None)"

fun hex_number :: "pystr \<Rightarrow> nat option" where
  "hex_number [] = Some 0"
| "hex_number (c # cs) =
     (case hex_value c of None \<Rightarrow> None
      | Some d \<Rightarrow> map_option (\<lambda>n. d * 16 ^ length cs + n) (hex_number cs))"

definition hex4 :: "pystr \<Rightarrow> (nat \<times> pystr) option" where
  "hex4 s = (if length s < 4 then None
             else map_option (\<lambda>n. (n, drop 4 s)) (hex_number (take 4 s)))"

definition json_escape :: "nat \<Rightarrow> nat option" where
  "json_escape e =
     (if e = 0x22 then Some 0x22
      else if e = 0x5C then Some 0x5C
      else if e = 0x2F then Some 0x2F
      else if e = 0x62 then Some 0x08
      else if e = 0x66 then Some 0x0C
      else if e = 0x6E then Some 0x0A
      else if e = 0x72 then Some 0x0D
      else if e = 0x74 then Some 0x09
      else None)"

definition unicode_escape :: "pystr \<Rightarrow> (nat \<times> pystr) option" where
  "unicode_escape s =
     (case hex4 s of None \<Rightarrow> None
      | Some (c, r) \<Rightarrow>
          (if 0xD800 \<le> c \<and> c \<le> 0xDBFF \<and> take 2 r = [0x5C, 0x75]
           then (case hex4 (drop 2 r) of
                   Some (c2, r2) \<Rightarrow>
                     (if 0xDC00 \<le> c2 \<and> c2 \<le> 0xDFFF
                      then Some (0x10000 + (c - 0xD800) * 0x400 + (c2 - 0xDC00), r2)
                      else Some (c, r))
                 | None \<Rightarrow> None)
           else Some (c, r)))"

text \<open>
  \<^verbatim>\<open>py_scanstring\<close>: the text after an opening quote, up to the closing quote. The
  escape of a high surrogate (backslash, \<^verbatim>\<open>u\<close>, four hexadecimal digits) followed by the
  escape of a low surrogate is one code point.
\<close>

lemma hex4_length: "hex4 s = Some (c, r) \<Longrightarrow> length r < length s"
  by (auto simp: hex4_def split: if_splits)

lemma unicode_escape_length: "unicode_escape s = Some (c, r) \<Longrightarrow> length r < length s"
  by (auto simp: unicode_escape_def split: option.splits if_splits dest!: hex4_length)

function py_scanstring :: "pystr \<Rightarrow> (pystr \<times> pystr) option" where
  "py_scanstring [] = None"
| "py_scanstring (c # cs) =
     (if c = 0x22 then Some ([], cs)
      else if c = 0x5C then
        (case cs of
           [] \<Rightarrow> None
         | e # r \<Rightarrow>
            (if e = 0x75 then
               (case unicode_escape r of
                  None \<Rightarrow> None
                | Some (u, r') \<Rightarrow>
                    (if length r' < length r
                     then map_option (\<lambda>(t, rest). (u # t, rest)) (py_scanstring r')
                     else None))
             else
               (case json_escape e of
                  None \<Rightarrow> None
                | Some x \<Rightarrow> map_option (\<lambda>(t, rest). (x # t, rest)) (py_scanstring r))))
      else if c < 0x20 then None
      else map_option (\<lambda>(t, rest). (c # t, rest)) (py_scanstring cs))"
  by pat_completeness auto
termination
  by (relation "measure length") auto

text \<open>
  The number pattern of the scanner: an optional minus sign; then \<^verbatim>\<open>0\<close>, or a non-zero
  digit followed by digits; then optionally a full stop and at least one digit; then
  optionally \<^verbatim>\<open>e\<close> or \<^verbatim>\<open>E\<close>, an optional sign and at least one digit. A part that
  does not match in full is left unread.
\<close>

definition match_int_part :: "pystr \<Rightarrow> (pystr \<times> pystr) option" where
  "match_int_part s =
     (case s of
        [] \<Rightarrow> None
      | c # cs \<Rightarrow>
          (if c = 0x30 then Some ([c], cs)
           else if 0x31 \<le> c \<and> c \<le> 0x39
           then Some (c # takeWhile is_digit cs, dropWhile is_digit cs)
           else None))"

definition match_frac :: "pystr \<Rightarrow> pystr \<times> pystr" where
  "match_frac s =
     (case s of
        c # d # cs \<Rightarrow>
          (if c = 0x2E \<and> is_digit d
           then (c # takeWhile is_digit (d # cs), dropWhile is_digit (d # cs))
           else ([], s))
      | _ \<Rightarrow> ([], s))"

definition match_exp :: "pystr \<Rightarrow> pystr \<times> pystr" where
  "match_exp s =
     (case s of
        [] \<Rightarrow> ([], s)
      | e # r \<Rightarrow>
          (if e = 0x65 \<or> e = 0x45 then
             (case r of
                [] \<Rightarrow> ([], s)
              | g # r' \<Rightarrow>
                  (if g = 0x2B \<or> g = 0x2D then
                     (if r' \<noteq> [] \<and> is_digit (hd r')
                      then (e # g # takeWhile is_digit r', dropWhile is_digit r')
                      else ([], s))
                   else if is_digit g
                   then (e # takeWhile is_digit r, dropWhile is_digit r)
                   else ([], s)))
           else ([], s)))"

definition match_number :: "pystr \<Rightarrow> (pyval \<times> pystr) option" where
  "match_number s =
     (case match_int_part (if take 1 s = [0x2D] then drop 1 s else s) of
        None \<Rightarrow> None
      | Some (ds, r) \<Rightarrow>
          (case match_frac r of (frac, r1) \<Rightarrow>
           case match_exp r1 of (ex, r2) \<Rightarrow>
             (if frac = [] \<and> ex = []
              then Some (PyInt (if take 1 s = [0x2D] then - int (int_of_digits ds)
                                else int (int_of_digits ds)), r2)
              else Some (PyFloat (FloatLit (take (length s - length r2) s)), r2))))"

text \<open>The constants and, when none of them stands at the front, a number.\<close>

definition scan_constant :: "pystr \<Rightarrow> (pyval \<times> pystr) option" where
  "scan_constant s =
     (if take 4 s = pys ''null'' then Some (PyNone, drop 4 s)
      else if take 4 s = pys ''true'' then Some (PyBool True, drop 4 s)
      else if take 5 s = pys ''false'' then Some (PyBool False, drop 5 s)
      else if take 3 s = pys ''NaN'' then Some (PyFloat FloatNaN, drop 3 s)
      else if take 8 s = pys ''Infinity'' then Some (PyFloat FloatInf, drop 8 s)
      else if take 9 s = pys ''-Infinity'' then Some (PyFloat FloatNegInf, drop 9 s)
      else match_number s)"

text \<open>
  \<open>scan_once\<close> reads one value, \<open>parse_array\<close> the elements of an array from its first
  element on, \<open>parse_object\<close> the members of an object from the quote of its first key on.
  The tests \<open>length r < length s\<close> are always true (a value is never empty, lemmas
  \<open>scan_once_length\<close>, \<open>parse_array_unguarded\<close> and \<open>parse_object_guard\<close> below);
  they are what makes the recursion visibly terminate.
\<close>

lemma py_scanstring_length: "py_scanstring s = Some (t, r) \<Longrightarrow> length r < length s"
proof (induction s arbitrary: t r rule: py_scanstring.induct)
  case 1
  then show ?case by simp
next
  case (2 c cs)
  then show ?case
    by (fastforce split: if_splits list.splits option.splits dest!: unicode_escape_length)
qed

lemma length_skip_ws: "length (skip_ws s) \<le> length s"
  by (simp add: skip_ws_def length_dropWhile_le)

lemma skip_ws_Cons_length: "skip_ws s = d # ds \<Longrightarrow> length ds < length s"
  using length_skip_ws [of s] by simp

function scan_once :: "pystr \<Rightarrow> (pyval \<times> pystr) option"
  and parse_array :: "pystr \<Rightarrow> (pyval list \<times> pystr) option"
  and parse_object :: "pystr \<Rightarrow> ((pystr \<times> pyval) list \<times> pystr) option"
where
  "scan_once s =
     (case s of
        [] \<Rightarrow> None
      | c # cs \<Rightarrow>
          (if c = 0x22 then map_option (\<lambda>(t, r). (PyStr t, r)) (py_scanstring cs)
           else if c = 0x7B then
             (case skip_ws cs of
                [] \<Rightarrow> None
              | d # ds \<Rightarrow>
                  (if d = 0x7D then Some (PyDict [], ds)
                   else map_option (\<lambda>(pairs, r). (PyDict (dict_of_pairs pairs), r))
                          (parse_object (d # ds))))
           else if c = 0x5B then
             (case skip_ws cs of
                [] \<Rightarrow> None
              | d # ds \<Rightarrow>
                  (if d = 0x5D then Some (PyList [], ds)
                   else map_option (\<lambda>(vs, r). (PyList vs, r)) (parse_array (d # ds))))
           else scan_constant s))"
| "parse_array s =
     (case scan_once s of
        None \<Rightarrow> None
      | Some (v, r) \<Rightarrow>
          (if length r < length s then
             (case skip_ws r of
                [] \<Rightarrow> None
              | d # ds \<Rightarrow>
                  (if d = 0x5D then Some ([v], ds)
                   else if d = 0x2C
                   then map_option (\<lambda>(vs, r'). (v # vs, r')) (parse_array (skip_ws ds))
                   else None))
           else None))"
| "parse_object s =
     (case s of
        [] \<Rightarrow> None
      | q # s1 \<Rightarrow>
          (if q \<noteq> 0x22 then None
           else
             (case py_scanstring s1 of
                None \<Rightarrow> None
              | Some (key, r) \<Rightarrow>
                  (case skip_ws r of
                     [] \<Rightarrow> None
                   | colon # r1 \<Rightarrow>
                       (if colon \<noteq> 0x3A then None
                        else
                          (case scan_once (skip_ws r1) of
                             None \<Rightarrow> None
                           | Some (v, r2) \<Rightarrow>
                               (if length r2 < length s then
                                  (case skip_ws r2 of
                                     [] \<Rightarrow> None
                                   | d # ds \<Rightarrow>
                                       (if d = 0x7D then Some ([(key, v)], ds)
                                        else if d = 0x2C
                                        then map_option (\<lambda>(pairs, r'). ((key, v) # pairs, r'))
                                               (parse_object (skip_ws ds))
                                        else None))
                                else None)))))))"
  by pat_completeness auto
termination
proof (relation "inv_image (less_than <*lex*> less_than)
         (\<lambda>x. case x of Inl s \<Rightarrow> (length s, 0::nat)
                        | Inr (Inl s) \<Rightarrow> (length s, 1)
                        | Inr (Inr s) \<Rightarrow> (length s, 1))", goal_cases)
  case 1
  then show ?case by (intro wf_inv_image wf_lex_prod wf_less_than)
qed (auto dest!: skip_ws_Cons_length py_scanstring_length
          intro: le_less_trans [OF length_skip_ws])


definition json_loads :: "pystr \<Rightarrow> pyval option" where
  "json_loads s =
     (if take 1 s = [0xFEFF] then None
      else
        (case scan_once (skip_ws s) of
           None \<Rightarrow> None
         | Some (obj, r) \<Rightarrow> (if skip_ws r = [] then Some obj else None)))"

section \<open>str and repr\<close>

text \<open>
  \<^verbatim>\<open>repr\<close> of the values above, as CPython prints them. The quote of a string is the
  single quote unless the string holds a single quote and no double quote. A character is
  printed as itself when it is printable: for ASCII that is \<open>0x20\<close>..\<open>0x7E\<close>; beyond
  ASCII it is decided by the Unicode database, which is a parameter \<open>isprintable\<close> here
  (a surrogate is never printable). Every other character is escaped.

  \<open>repr_float\<close> prints the literal that stands for a finite float. CPython prints the
  shortest decimal that reads back as the same float instead; the two texts denote the
  same float, and this model never compares them. \<^verbatim>\<open>nan\<close>, \<^verbatim>\<open>inf\<close> and
  \<^verbatim>\<open>-inf\<close> are what CPython prints.
\<close>

fun dec_digits :: "nat \<Rightarrow> pystr" where
  "dec_digits n = (if n < 10 then [0x30 + n] else dec_digits (n div 10) @ [0x30 + n mod 10])"

declare dec_digits.simps [simp del]

definition hex_digit :: "nat \<Rightarrow> nat" where
  "hex_digit d = (if d < 10 then 0x30 + d else 0x61 + (d - 10))"

fun hex_digits :: "nat \<Rightarrow> nat \<Rightarrow> pystr" where
  "hex_digits 0 n = []"
| "hex_digits (Suc k) n = hex_digit ((n div 16 ^ k) mod 16) # hex_digits k n"

definition is_surrogate :: "nat \<Rightarrow> bool" where
  "is_surrogate c \<longleftrightarrow> 0xD800 \<le> c \<and> c \<le> 0xDFFF"

definition repr_char :: "(nat \<Rightarrow> bool) \<Rightarrow> nat \<Rightarrow> nat \<Rightarrow> pystr" where
  "repr_char isprintable quote c =
     (if c = quote \<or> c = 0x5C then [0x5C, c]
      else if c = 0x09 then [0x5C, 0x74]
      else if c = 0x0A then [0x5C, 0x6E]
      else if c = 0x0D then [0x5C, 0x72]
      else if c < 0x20 \<or> c = 0x7F then [0x5C, 0x78] @ hex_digits 2 c
      else if c < 0x7F then [c]
      else if isprintable c \<and> \<not> is_surrogate c then [c]
      else if c \<le> 0xFF then [0x5C, 0x78] @ hex_digits 2 c
      else if c \<le> 0xFFFF then [0x5C, 0x75] @ hex_digits 4 c
      else [0x5C, 0x55] @ hex_digits 8 c)"

definition repr_quote :: "pystr \<Rightarrow> nat" where
  "repr_quote s = (if 0x27 \<in> set s \<and> 0x22 \<notin> set s then 0x22 else 0x27)"

definition repr_str :: "(nat \<Rightarrow> bool) \<Rightarrow> pystr \<Rightarrow> pystr" where
  "repr_str isprintable s =
     [repr_quote s] @ concat (map (repr_char isprintable (repr_quote s)) s) @ [repr_quote s]"

fun join_comma :: "pystr list \<Rightarrow> pystr" where
  "join_comma [] = []"
| "join_comma [x] = x"
| "join_comma (x # y # zs) = x @ pys '', '' @ join_comma (y # zs)"

definition repr_float :: "pyfloat \<Rightarrow> pystr" where
  "repr_float f = (case f of FloatLit l \<Rightarrow> l | FloatNaN \<Rightarrow> pys ''nan''
                   | FloatInf \<Rightarrow> pys ''inf'' | FloatNegInf \<Rightarrow> pys ''-inf'')"

fun py_repr :: "(nat \<Rightarrow> bool) \<Rightarrow> pyval \<Rightarrow> pystr" where
  "py_repr pr PyNone = pys ''None''"
| "py_repr pr (PyBool b) = (if b then pys ''True'' else pys ''False'')"
| "py_repr pr (PyInt i) = (if i < 0 then 0x2D # dec_digits (nat (- i)) else dec_digits (nat i))"
| "py_repr pr (PyFloat f) = repr_float f"
| "py_repr pr (PyStr s) = repr_str pr s"
| "py_repr pr (PyList vs) = [0x5B] @ join_comma (map (py_repr pr) vs) @ [0x5D]"
| "py_repr pr (PyDict kvs) =
     [0x7B] @ join_comma (map (\<lambda>(k, v). repr_str pr k @ pys '': '' @ py_repr pr v) kvs) @ [0x7D]"

text \<open>\<^verbatim>\<open>str(x)\<close>: a string is its own text, every other value prints as its \<^verbatim>\<open>repr\<close>.\<close>

definition py_str :: "(nat \<Rightarrow> bool) \<Rightarrow> pyval \<Rightarrow> pystr" where
  "py_str pr v = (case v of PyStr s \<Rightarrow> s | _ \<Rightarrow> py_repr pr v)"

section \<open>ast.literal_eval\<close>

text \<open>
  The reader for the part of Python's literal syntax that \<^verbatim>\<open>repr\<close> prints for the
  values above: \<^verbatim>\<open>None\<close>, \<^verbatim>\<open>True\<close>, \<^verbatim>\<open>False\<close>, decimal integers and floats with
  an optional minus sign, strings in single or double quotes with their escapes, list
  displays and dict displays with string keys, with blanks between the tokens. Names such
  as \<^verbatim>\<open>nan\<close> and \<^verbatim>\<open>inf\<close> are no literals: \<^verbatim>\<open>ast.literal_eval\<close> raises
  \<^verbatim>\<open>ValueError\<close> on them. The rest of Python's syntax (tuples, sets, bytes, other
  number forms, trailing commas) is not modelled and is rejected here. Every failure is
  the one result \<open>LiteralError\<close>.
\<close>

definition is_blank :: "nat \<Rightarrow> bool" where
  "is_blank c \<longleftrightarrow> c = 0x20 \<or> c = 0x09"

definition skip_blank :: "pystr \<Rightarrow> pystr" where
  "skip_blank s = dropWhile is_blank s"

definition hex_escape :: "nat \<Rightarrow> pystr \<Rightarrow> (nat \<times> pystr) option" where
  "hex_escape k s =
     (if length s < k then None
      else map_option (\<lambda>n. (n, drop k s)) (hex_number (take k s)))"

definition lit_escape :: "nat \<Rightarrow> nat option" where
  "lit_escape e =
     (if e = 0x5C then Some 0x5C
      else if e = 0x27 then Some 0x27
      else if e = 0x22 then Some 0x22
      else if e = 0x61 then Some 0x07
      else if e = 0x62 then Some 0x08
      else if e = 0x66 then Some 0x0C
      else if e = 0x6E then Some 0x0A
      else if e = 0x72 then Some 0x0D
      else if e = 0x74 then Some 0x09
      else if e = 0x76 then Some 0x0B
      else None)"

definition lit_escape_seq :: "pystr \<Rightarrow> (nat \<times> pystr) option" where
  "lit_escape_seq s =
     (case s of
        [] \<Rightarrow> None
      | e # r \<Rightarrow>
          (if e = 0x78 then hex_escape 2 r
           else if e = 0x75 then hex_escape 4 r
           else if e = 0x55 then
             (case hex_escape 8 r of
                None \<Rightarrow> None
              | Some (n, r') \<Rightarrow> (if n \<le> 0x10FFFF then Some (n, r') else None))
           else map_option (\<lambda>x. (x, r)) (lit_escape e)))"

lemma hex_escape_length: "hex_escape k s = Some (n, r) \<Longrightarrow> length r \<le> length s"
  by (auto simp: hex_escape_def split: if_splits)

lemma lit_escape_seq_length: "lit_escape_seq s = Some (n, r) \<Longrightarrow> length r < length s"
  by (auto simp: lit_escape_seq_def split: list.splits if_splits option.splits
           dest!: hex_escape_length)

function lit_string :: "nat \<Rightarrow> pystr \<Rightarrow> (pystr \<times> pystr) option" where
  "lit_string q [] = None"
| "lit_string q (c # cs) =
     (if c = q then Some ([], cs)
      else if c = 0x5C then
        (case lit_escape_seq cs of
           None \<Rightarrow> None
         | Some (x, r) \<Rightarrow>
             (if length r < length cs
              then map_option (\<lambda>(t, rest). (x # t, rest)) (lit_string q r)
              else None))
      else if c < 0x20 \<or> is_surrogate c then None
      else map_option (\<lambda>(t, rest). (c # t, rest)) (lit_string q cs))"
  by pat_completeness auto
termination
  by (relation "measure (\<lambda>(q, s). length s)") auto

lemma lit_string_length: "lit_string q s = Some (t, r) \<Longrightarrow> length r < length s"
proof (induction q s arbitrary: t r rule: lit_string.induct)
  case (1 q)
  then show ?case by simp
next
  case (2 q c cs)
  then show ?case
    by (fastforce split: if_splits option.splits)
qed

definition lit_number :: "pystr \<Rightarrow> (pyval \<times> pystr) option" where
  "lit_number s =
     (case (if take 1 s = [0x2D] then drop 1 s else s) of
        [] \<Rightarrow> None
      | c # cs \<Rightarrow>
          (if \<not> is_digit c then None
           else
             (case match_frac (dropWhile is_digit cs) of (frac, r1) \<Rightarrow>
              case match_exp r1 of (ex, r2) \<Rightarrow>
                (if frac = [] \<and> ex = []
                 then (if c = 0x30 \<and> \<not> list_all (\<lambda>d. d = 0x30) (takeWhile is_digit cs) then None
                       else Some (PyInt (if take 1 s = [0x2D]
                                         then - int (int_of_digits (c # takeWhile is_digit cs))
                                         else int (int_of_digits (c # takeWhile is_digit cs))), r2))
                 else Some (PyFloat (FloatLit (take (length s - length r2) s)), r2)))))"

lemma length_skip_blank: "length (skip_blank s) \<le> length s"
  by (simp add: skip_blank_def length_dropWhile_le)

lemma skip_blank_Cons_length: "skip_blank s = d # ds \<Longrightarrow> length ds < length s"
  using length_skip_blank [of s] by simp

definition lit_constant :: "pystr \<Rightarrow> (pyval \<times> pystr) option" where
  "lit_constant s =
     (if take 4 s = pys ''None'' then Some (PyNone, drop 4 s)
      else if take 4 s = pys ''True'' then Some (PyBool True, drop 4 s)
      else if take 5 s = pys ''False'' then Some (PyBool False, drop 5 s)
      else lit_number s)"

function lit_value :: "pystr \<Rightarrow> (pyval \<times> pystr) option"
  and lit_list :: "pystr \<Rightarrow> (pyval list \<times> pystr) option"
  and lit_dict :: "pystr \<Rightarrow> ((pystr \<times> pyval) list \<times> pystr) option"
where
  "lit_value s =
     (case s of
        [] \<Rightarrow> None
      | c # cs \<Rightarrow>
          (if c = 0x27 \<or> c = 0x22 then map_option (\<lambda>(t, r). (PyStr t, r)) (lit_string c cs)
           else if c = 0x5B then
             (case skip_blank cs of
                [] \<Rightarrow> None
              | d # ds \<Rightarrow>
                  (if d = 0x5D then Some (PyList [], ds)
                   else map_option (\<lambda>(vs, r). (PyList vs, r)) (lit_list (d # ds))))
           else if c = 0x7B then
             (case skip_blank cs of
                [] \<Rightarrow> None
              | d # ds \<Rightarrow>
                  (if d = 0x7D then Some (PyDict [], ds)
                   else map_option (\<lambda>(pairs, r). (PyDict (dict_of_pairs pairs), r))
                          (lit_dict (d # ds))))
           else lit_constant s))"
| "lit_list s =
     (case lit_value s of
        None \<Rightarrow> None
      | Some (v, r) \<Rightarrow>
          (if length r < length s then
             (case skip_blank r of
                [] \<Rightarrow> None
              | d # ds \<Rightarrow>
                  (if d = 0x5D then Some ([v], ds)
                   else if d = 0x2C
                   then map_option (\<lambda>(vs, r'). (v # vs, r')) (lit_list (skip_blank ds))
                   else None))
           else None))"
| "lit_dict s =
     (case s of
        [] \<Rightarrow> None
      | q # s1 \<Rightarrow>
          (if q \<noteq> 0x27 \<and> q \<noteq> 0x22 then None
           else
             (case lit_string q s1 of
                None \<Rightarrow> None
              | Some (key, r) \<Rightarrow>
                  (case skip_blank r of
                     [] \<Rightarrow> None
                   | colon # r1 \<Rightarrow>
                       (if colon \<noteq> 0x3A then None
                        else
                          (case lit_value (skip_blank r1) of
                             None \<Rightarrow> None
                           | Some (v, r2) \<Rightarrow>
                               (if length r2 < length s then
                                  (case skip_blank r2 of
                                     [] \<Rightarrow> None
                                   | d # ds \<Rightarrow>
                                       (if d = 0x7D then Some ([(key, v)], ds)
                                        else if d = 0x2C
                                        then map_option (\<lambda>(pairs, r'). ((key, v) # pairs, r'))
                                               (lit_dict (skip_blank ds))
                                        else None))
                                else None)))))))"
  by pat_completeness auto
termination
proof (relation "inv_image (less_than <*lex*> less_than)
         (\<lambda>x. case x of Inl s \<Rightarrow> (length s, 0::nat)
                        | Inr (Inl s) \<Rightarrow> (length s, 1)
                        | Inr (Inr s) \<Rightarrow> (length s, 1))", goal_cases)
  case 1
  then show ?case by (intro wf_inv_image wf_lex_prod wf_less_than)
qed (auto dest!: skip_blank_Cons_length lit_string_length
          intro: le_less_trans [OF length_skip_blank])

definition literal_eval :: "pystr \<Rightarrow> exn + pyval" where
  "literal_eval s =
     (case lit_value (skip_blank s) of
        None \<Rightarrow> Inl LiteralError
      | Some (v, r) \<Rightarrow> (if skip_blank r = [] then Inr v else Inl LiteralError))"

section \<open>main.py\<close>

subsection \<open>The environment of the program\<close>

text \<open>
  What the program obtains from outside itself:
  \<^item> \<open>classify\<close>: the remote classifier (\<^verbatim>\<open>client.messages.create\<close> and the read of
    \<^verbatim>\<open>response.content[0].text\<close>, lines 221 to 231). It is given the image block when
    there is one and the ad copy that the prompt embeds; it answers with the reply text
    (\<open>Inr\<close>) or fails with an exception, of which only the message is kept (\<open>Inl\<close>).
  \<^item> \<open>json_error_text\<close>: the message of the exception that \<^verbatim>\<open>json.loads\<close> raises on a
    document.
  \<^item> \<open>isprintable\<close>: the Unicode database's printable code points.
\<close>

record env =
  classify :: "pystr option \<Rightarrow> pystr \<Rightarrow> pystr + pystr"
  json_error_text :: "pystr \<Rightarrow> pystr"
  isprintable :: "nat \<Rightarrow> bool"

subsection \<open>analyze_with_ai (lines 169 to 266)\<close>

text \<open>The two patterns of lines 238 and 243.\<close>

definition FENCE_OPEN :: pystr where
  "FENCE_OPEN = pys ''```json'' @ [0x0A]"

definition FENCE_CLOSE :: pystr where
  "FENCE_CLOSE = 0x0A # pys ''```''"

definition FENCED_JSON :: "re_item list" where
  "FENCED_JSON = [Lit FENCE_OPEN, Any_lazy, Lit FENCE_CLOSE]"

definition BRACED :: "re_item list" where
  "BRACED = [Lit [0x7B], Any_greedy, Lit [0x7D]]"

text \<open>Lines 238 to 247: the text handed to \<^verbatim>\<open>json.loads\<close>.\<close>

definition extract_json_str :: "pystr \<Rightarrow> pystr" where
  "extract_json_str response_text =
     (case re_search FENCED_JSON response_text of
        Some json_match \<Rightarrow> json_match ! 1
      | None \<Rightarrow>
          (case re_search BRACED response_text of
             Some json_match \<Rightarrow> json_match ! 0
           | None \<Rightarrow> response_text))"

text \<open>Lines 254 to 266: the dict returned by the \<^verbatim>\<open>except\<close> branch.\<close>

definition fallback_response :: "pystr \<Rightarrow> pyval" where
  "fallback_response e =
     PyDict
       [(pys ''compliance_score'', PyInt 50),
        (pys ''risk_level'', PyStr (pys ''MEDIUM'')),
        (pys ''violations'',
           PyList
             [PyDict
                [(pys ''category'', PyStr (pys ''Analysis Error'')),
                 (pys ''severity'', PyStr (pys ''MEDIUM'')),
                 (pys ''issue'', PyStr (pys ''Could not complete analysis: '' @ e)),
                 (pys ''text_snippet'', PyStr []),
                 (pys ''policy_reference'', PyStr (pys ''System Error''))]]),
        (pys ''recommendations'', PyList [PyStr (pys ''Please try again or contact support'')]),
        (pys ''summary'',
           PyStr (pys ''Analysis could not be completed due to technical error''))]"

text \<open>
  The image block is added when \<^verbatim>\<open>image_data\<close> is truthy (line 175): neither
  \<^verbatim>\<open>None\<close> nor the empty string.
\<close>

definition image_block :: "pystr option \<Rightarrow> pystr option" where
  "image_block image_data =
     (case image_data of None \<Rightarrow> None | Some d \<Rightarrow> (if d = [] then None else Some d))"

text \<open>
  The \<^verbatim>\<open>try\<close> block holds the classifier call and the parse; every exception raised in
  it is caught (line 252) and answered with the fallback dict. What \<^verbatim>\<open>json.loads\<close>
  returns is returned as it is.
\<close>

definition analyze_with_ai :: "env \<Rightarrow> pystr \<Rightarrow> pystr option \<Rightarrow> pyval" where
  "analyze_with_ai env ad_copy image_data =
     (case classify env (image_block image_data) ad_copy of
        Inl e \<Rightarrow> fallback_response e
      | Inr response_text \<Rightarrow>
          (case json_loads (extract_json_str response_text) of
             None \<Rightarrow> fallback_response (json_error_text env (extract_json_str response_text))
           | Some result \<Rightarrow> result))"

subsection \<open>The table scan_results and the response model (lines 36 to 58)\<close>

text \<open>
  A row of \<^verbatim>\<open>scan_results\<close>. The two text columns hold what \<^verbatim>\<open>str\<close> printed. The
  engine's own checks of the column types are not modelled: a row holds what the handler
  stored. \<open>row_created_at\<close> is a point in time, as a number.
\<close>

record scan_result =
  row_id :: int
  row_user_id :: pystr
  row_ad_copy :: pystr
  row_image_name :: "pystr option"
  row_compliance_score :: pyval
  row_risk_level :: pyval
  row_violations :: pystr
  row_recommendations :: pystr
  row_created_at :: int

text \<open>
  The state outside a request: the table, in insertion order, and the calls made to the
  classifier so far.
\<close>

record world =
  scan_results :: "scan_result list"
  classifier_calls :: "(pystr option \<times> pystr) list"

text \<open>The primary key of a new row: one more than the largest key in use.\<close>

definition next_id :: "scan_result list \<Rightarrow> int" where
  "next_id rows = foldr max (map row_id rows) 0 + 1"

record ScanResponse =
  scan_id :: int
  compliance_score :: pyval
  risk_level :: pyval
  violations :: pyval
  recommendations :: pyval
  summary :: pyval

text \<open>
  pydantic's check of the fields of \<^verbatim>\<open>ScanResponse\<close> (lines 52 to 58):
  \<^verbatim>\<open>compliance_score: float\<close> takes a number, \<^verbatim>\<open>risk_level: str\<close> and
  \<^verbatim>\<open>summary: str\<close> a string, \<^verbatim>\<open>violations: List[dict]\<close> a list of dicts,
  \<^verbatim>\<open>recommendations: List[str]\<close> a list of strings. The field keeps the value it was
  given (pydantic turns an int score into the float of the same value). pydantic's
  conversions of other values into a float (a numeric string, a boolean) are not
  modelled: such a value is refused here.
\<close>

definition is_number :: "pyval \<Rightarrow> bool" where
  "is_number v = (case v of PyInt i \<Rightarrow> True | PyFloat f \<Rightarrow> True | _ \<Rightarrow> False)"

definition is_str :: "pyval \<Rightarrow> bool" where
  "is_str v = (case v of PyStr s \<Rightarrow> True | _ \<Rightarrow> False)"

definition is_dict :: "pyval \<Rightarrow> bool" where
  "is_dict v = (case v of PyDict kvs \<Rightarrow> True | _ \<Rightarrow> False)"

definition is_list_of :: "(pyval \<Rightarrow> bool) \<Rightarrow> pyval \<Rightarrow> bool" where
  "is_list_of p v = (case v of PyList vs \<Rightarrow> list_all p vs | _ \<Rightarrow> False)"

definition new_ScanResponse ::
  "int \<Rightarrow> pyval \<Rightarrow> pyval \<Rightarrow> pyval \<Rightarrow> pyval \<Rightarrow> pyval \<Rightarrow> exn + ScanResponse" where
  "new_ScanResponse i score level viols recs summ =
     (if is_number score \<and> is_str level \<and> is_list_of is_dict viols
         \<and> is_list_of is_str recs \<and> is_str summ
      then Inr \<lparr>scan_id = i, compliance_score = score, risk_level = level,
                violations = viols, recommendations = recs, summary = summ\<rparr>
      else Inl ValidationError)"

subsection \<open>scan_ad (lines 284 to 336)\<close>

text \<open>
  The upload, when there is one, is its file name and its content in base64 (lines 303 to
  306; the encoding itself is not modelled). The steps, in the order of the source:
  the call of \<^verbatim>\<open>analyze_with_ai\<close>, which calls the classifier once; the four reads of
  \<^verbatim>\<open>analysis\<close> that build the row (lines 318 to 321), each of which may raise; the
  insert, which sets the key and \<^verbatim>\<open>created_at\<close>; the read of
  \<^verbatim>\<open>analysis["summary"]\<close> and the construction of the response (lines 327 to 334),
  which may raise after the row is stored.
\<close>

definition upload_name :: "(pystr option \<times> pystr) option \<Rightarrow> pystr option" where
  "upload_name upload = (case upload of None \<Rightarrow> None | Some (filename, data) \<Rightarrow> filename)"

definition upload_data :: "(pystr option \<times> pystr) option \<Rightarrow> pystr option" where
  "upload_data upload = (case upload of None \<Rightarrow> None | Some (filename, data) \<Rightarrow> Some data)"

definition scan_ad ::
  "env \<Rightarrow> int \<Rightarrow> pystr \<Rightarrow> pystr \<Rightarrow> (pystr option \<times> pystr) option \<Rightarrow> world
     \<Rightarrow> (exn + ScanResponse) \<times> world" where
  "scan_ad env now ad_copy user_id upload w =
     (let image_name = upload_name upload;
          image_data = upload_data upload;
          analysis = analyze_with_ai env ad_copy image_data;
          w1 = w\<lparr>classifier_calls := classifier_calls w @ [(image_block image_data, ad_copy)]\<rparr>
      in
        case getitem analysis (pys ''compliance_score'') of
          Inl e \<Rightarrow> (Inl e, w1)
        | Inr score \<Rightarrow>
        case getitem analysis (pys ''risk_level'') of
          Inl e \<Rightarrow> (Inl e, w1)
        | Inr level \<Rightarrow>
        case getitem analysis (pys ''violations'') of
          Inl e \<Rightarrow> (Inl e, w1)
        | Inr viols \<Rightarrow>
        case getitem analysis (pys ''recommendations'') of
          Inl e \<Rightarrow> (Inl e, w1)
        | Inr recs \<Rightarrow>
            (let scan_result =
                   \<lparr>row_id = next_id (scan_results w1),
                    row_user_id = user_id,
                    row_ad_copy = ad_copy,
                    row_image_name = image_name,
                    row_compliance_score = score,
                    row_risk_level = level,
                    row_violations = py_str (isprintable env) viols,
                    row_recommendations = py_str (isprintable env) recs,
                    row_created_at = now\<rparr>;
                 w2 = w1\<lparr>scan_results := scan_results w1 @ [scan_result]\<rparr>
             in
               case getitem analysis (pys ''summary'') of
                 Inl e \<Rightarrow> (Inl e, w2)
               | Inr summ \<Rightarrow>
                   (new_ScanResponse (row_id scan_result) score level viols recs summ, w2)))"

text \<open>
  The status of the HTTP answer: 200 for a result; the status code of an
  \<^verbatim>\<open>HTTPException\<close>; 422 for a request that does not bind; 500 for every other
  exception that leaves a handler.
\<close>

definition http_status :: "exn + 'a \<Rightarrow> nat" where
  "http_status r =
     (case r of
        Inr x \<Rightarrow> 200
      | Inl (HTTPException code detail) \<Rightarrow> code
      | Inl RequestValidationError \<Rightarrow> 422
      | Inl e \<Rightarrow> 500)"

text \<open>
  The route \<^verbatim>\<open>POST /scan\<close>: FastAPI binds the form before it calls the handler.
  \<^verbatim>\<open>ad_copy: str = Form(...)\<close> is a required field; FastAPI takes a form field whose
  value is the empty string for a missing one, answers a request whose required field is
  missing with status 422 and does not call the handler. \<^verbatim>\<open>user_id\<close> has the default
  \<^verbatim>\<open>"anonymous"\<close>.
\<close>

record scan_form =
  form_ad_copy :: "pystr option"
  form_user_id :: "pystr option"
  form_image :: "(pystr option \<times> pystr) option"

definition bind_form_field :: "pystr option \<Rightarrow> pystr option" where
  "bind_form_field field = (case field of None \<Rightarrow> None | Some v \<Rightarrow> (if v = [] then None else Some v))"

definition post_scan ::
  "env \<Rightarrow> int \<Rightarrow> scan_form \<Rightarrow> world \<Rightarrow> (exn + ScanResponse) \<times> world" where
  "post_scan env now form w =
     (case bind_form_field (form_ad_copy form) of
        None \<Rightarrow> (Inl RequestValidationError, w)
      | Some ad_copy \<Rightarrow>
          scan_ad env now ad_copy
            (case bind_form_field (form_user_id form) of
               None \<Rightarrow> pys ''anonymous'' | Some u \<Rightarrow> u)
            (form_image form) w)"

subsection \<open>get_scan_history (lines 338 to 361)\<close>

text \<open>
  The query: the rows of the user, by \<^verbatim>\<open>created_at\<close> descending, cut by \<^verbatim>\<open>LIMIT\<close>.
  The order among rows of one \<^verbatim>\<open>created_at\<close> is the engine's; the stable sort below is
  one such order. A negative \<^verbatim>\<open>LIMIT\<close> is passed on to the engine as it is: SQLite (the
  default \<^verbatim>\<open>DATABASE_URL\<close> of line 30) then returns every row, PostgreSQL (the engine
  of the set-up instructions) refuses the statement.
\<close>

datatype dialect = SQLite | PostgreSQL

definition sql_limit :: "dialect \<Rightarrow> int \<Rightarrow> 'a list \<Rightarrow> exn + 'a list" where
  "sql_limit d n rows =
     (if 0 \<le> n then Inr (take (nat n) rows)
      else (case d of SQLite \<Rightarrow> Inr rows | PostgreSQL \<Rightarrow> Inl DatabaseError))"

definition query_history :: "dialect \<Rightarrow> pystr \<Rightarrow> int \<Rightarrow> scan_result list \<Rightarrow> exn + scan_result list" where
  "query_history d user_id limit_arg rows =
     sql_limit d limit_arg
       (sort_key (\<lambda>r. - row_created_at r) (filter (\<lambda>r. row_user_id r = user_id) rows))"

record scan_summary =
  h_scan_id :: int
  h_compliance_score :: pyval
  h_risk_level :: pyval
  h_created_at :: int
  ad_copy_preview :: pystr

record history =
  h_user_id :: pystr
  total_scans :: nat
  scans :: "scan_summary list"

text \<open>Line 357. The conditional expression binds weaker than \<^verbatim>\<open>+\<close>.\<close>

definition preview :: "pystr \<Rightarrow> pystr" where
  "preview ad_copy = (if length ad_copy > 100 then take 100 ad_copy @ pys ''...'' else ad_copy)"

definition summary_of :: "scan_result \<Rightarrow> scan_summary" where
  "summary_of s =
     \<lparr>h_scan_id = row_id s,
      h_compliance_score = row_compliance_score s,
      h_risk_level = row_risk_level s,
      h_created_at = row_created_at s,
      ad_copy_preview = preview (row_ad_copy s)\<rparr>"

text \<open>\<open>limit_arg\<close> is \<open>None\<close> when the request has no \<^verbatim>\<open>limit\<close>: the default is 10.\<close>

definition get_scan_history ::
  "dialect \<Rightarrow> pystr \<Rightarrow> int option \<Rightarrow> world \<Rightarrow> exn + history" where
  "get_scan_history d user_id limit_arg w =
     (case query_history d user_id (case limit_arg of None \<Rightarrow> 10 | Some n \<Rightarrow> n)
             (scan_results w) of
        Inl e \<Rightarrow> Inl e
      | Inr rows \<Rightarrow>
          Inr \<lparr>h_user_id = user_id, total_scans = length rows, scans = map summary_of rows\<rparr>)"

subsection \<open>get_scan_details (lines 363 to 385)\<close>

record scan_details =
  d_scan_id :: int
  d_ad_copy :: pystr
  d_compliance_score :: pyval
  d_risk_level :: pyval
  d_violations :: pyval
  d_recommendations :: pyval
  d_created_at :: int

definition get_scan_details :: "int \<Rightarrow> world \<Rightarrow> exn + scan_details" where
  "get_scan_details i w =
     (case find (\<lambda>r. row_id r = i) (scan_results w) of
        None \<Rightarrow> Inl (HTTPException 404 (pys ''Scan not found''))
      | Some scan \<Rightarrow>
          (case literal_eval (row_violations scan) of
             Inl e \<Rightarrow> Inl e
           | Inr viols \<Rightarrow>
               (case literal_eval (row_recommendations scan) of
                  Inl e \<Rightarrow> Inl e
                | Inr recs \<Rightarrow>
                    Inr \<lparr>d_scan_id = row_id scan,
                         d_ad_copy = row_ad_copy scan,
                         d_compliance_score = row_compliance_score scan,
                         d_risk_level = row_risk_level scan,
                         d_violations = viols,
                         d_recommendations = recs,
                         d_created_at = row_created_at scan\<rparr>)))"

section \<open>The specification's description of the candidate payload\<close>

text \<open>
  Section 4.3 of the specification selects the candidate in three steps: the inner content
  of a fenced code block marked as JSON; else the span from the first opening brace to the
  last closing brace; else the raw text. The definitions below say this with plain list
  functions: \<open>find_sub\<close> is the position of the first occurrence of a text, \<open>rfind\<close> the
  position of the last occurrence of a character.
\<close>

fun find_sub :: "pystr \<Rightarrow> pystr \<Rightarrow> nat option" where
  "find_sub p [] = (if p = [] then Some 0 else None)"
| "find_sub p (c # cs) =
     (if take (length p) (c # cs) = p then Some 0 else map_option Suc (find_sub p cs))"

fun rfind :: "nat \<Rightarrow> pystr \<Rightarrow> nat option" where
  "rfind c [] = None"
| "rfind c (x # xs) =
     (case rfind c xs of Some j \<Rightarrow> Some (Suc j) | None \<Rightarrow> (if x = c then Some 0 else None))"

text \<open>
  A fenced block marked as JSON: the first line \<^verbatim>\<open>```json\<close>, and after it the first
  line that starts with \<^verbatim>\<open>```\<close>; the inner content is the text between the two line
  breaks.
\<close>

definition spec_fenced :: "pystr \<Rightarrow> pystr option" where
  "spec_fenced raw =
     (case find_sub FENCE_OPEN raw of
        None \<Rightarrow> None
      | Some i \<Rightarrow>
          (case find_sub FENCE_CLOSE (drop (i + length FENCE_OPEN) raw) of
             None \<Rightarrow> None
           | Some j \<Rightarrow> Some (take j (drop (i + length FENCE_OPEN) raw))))"

definition spec_braced :: "pystr \<Rightarrow> pystr option" where
  "spec_braced raw =
     (case find_sub [0x7B] raw of
        None \<Rightarrow> None
      | Some i \<Rightarrow>
          (case rfind 0x7D (drop (Suc i) raw) of
             None \<Rightarrow> None
           | Some j \<Rightarrow> Some (take (j + 2) (drop i raw))))"

definition spec_candidate :: "pystr \<Rightarrow> pystr" where
  "spec_candidate raw =
     (case spec_fenced raw of
        Some inner \<Rightarrow> inner
      | None \<Rightarrow> (case spec_braced raw of Some span \<Rightarrow> span | None \<Rightarrow> raw))"

text \<open>
  Section 4.3, step 4 of the specification: the degraded result, with the description of
  what failed as its \<^verbatim>\<open>issue\<close>.
\<close>

definition degraded_violations :: "pystr \<Rightarrow> pyval" where
  "degraded_violations e =
     PyList
       [PyDict
          [(pys ''category'', PyStr (pys ''Analysis Error'')),
           (pys ''severity'', PyStr (pys ''MEDIUM'')),
           (pys ''issue'', PyStr (pys ''Could not complete analysis: '' @ e)),
           (pys ''text_snippet'', PyStr []),
           (pys ''policy_reference'', PyStr (pys ''System Error''))]]"

definition degraded_response :: "int \<Rightarrow> pystr \<Rightarrow> ScanResponse" where
  "degraded_response i e =
     \<lparr>scan_id = i,
      compliance_score = PyInt 50,
      risk_level = PyStr (pys ''MEDIUM''),
      violations = degraded_violations e,
      recommendations = PyList [PyStr (pys ''Please try again or contact support'')],
      summary = PyStr (pys ''Analysis could not be completed due to technical error'')\<rparr>"

text \<open>The row that \<^verbatim>\<open>scan_ad\<close> stores for the degraded result.\<close>

definition degraded_row ::
  "env \<Rightarrow> int \<Rightarrow> int \<Rightarrow> pystr \<Rightarrow> pystr \<Rightarrow> pystr option \<Rightarrow> pystr \<Rightarrow> scan_result" where
  "degraded_row env i now ad_copy user_id image_name e =
     \<lparr>row_id = i,
      row_user_id = user_id,
      row_ad_copy = ad_copy,
      row_image_name = image_name,
      row_compliance_score = PyInt 50,
      row_risk_level = PyStr (pys ''MEDIUM''),
      row_violations = py_str (isprintable env) (degraded_violations e),
      row_recommendations =
        py_str (isprintable env) (PyList [PyStr (pys ''Please try again or contact support'')]),
      row_created_at = now\<rparr>"

section \<open>Values that the stored text reads back\<close>

text \<open>
  \<open>valid_str\<close>: every element is a Unicode code point. \<open>repr_safe\<close>: the values whose
  \<^verbatim>\<open>repr\<close> is a literal that evaluates to them: no float anywhere, strings of code
  points, dicts with distinct keys (as every Python dict has). The remaining predicates
  describe the text around a printed value: \<open>number_end\<close> and \<open>delim\<close> what may follow
  it, \<open>value_start\<close> how it begins; \<open>repr_item\<close> is one printed entry of a dict.
\<close>

definition valid_str :: "pystr \<Rightarrow> bool" where
  "valid_str s \<longleftrightarrow> list_all (\<lambda>c. c < 0x110000) s"

definition number_end :: "pystr \<Rightarrow> bool" where
  "number_end rest \<longleftrightarrow>
     (case rest of [] \<Rightarrow> True
      | c # _ \<Rightarrow> \<not> is_digit c \<and> c \<noteq> 0x2E \<and> c \<noteq> 0x65 \<and> c \<noteq> 0x45)"

fun repr_safe :: "pyval \<Rightarrow> bool" where
  "repr_safe PyNone = True"
| "repr_safe (PyBool b) = True"
| "repr_safe (PyInt i) = True"
| "repr_safe (PyFloat f) = False"
| "repr_safe (PyStr s) = valid_str s"
| "repr_safe (PyList vs) = list_all repr_safe vs"
| "repr_safe (PyDict kvs) =
     (distinct (map fst kvs) \<and> list_all (\<lambda>(k, v). valid_str k \<and> repr_safe v) kvs)"

definition delim :: "pystr \<Rightarrow> bool" where
  "delim rest \<longleftrightarrow> (case rest of [] \<Rightarrow> True | c # _ \<Rightarrow> c = 0x2C \<or> c = 0x5D \<or> c = 0x7D)"

definition value_start :: "pystr \<Rightarrow> bool" where
  "value_start s \<longleftrightarrow>
     (case s of [] \<Rightarrow> False | c # _ \<Rightarrow> \<not> is_blank c \<and> c \<noteq> 0x5D \<and> c \<noteq> 0x7D)"

definition repr_item :: "(nat \<Rightarrow> bool) \<Rightarrow> pystr \<times> pyval \<Rightarrow> pystr" where
  "repr_item pr kv = repr_str pr (fst kv) @ 0x3A # 0x20 # py_repr pr (snd kv)"

section \<open>Example data\<close>

text \<open>Example data: two scans of user \<open>u1\<close>, one of user \<open>u2\<close>.\<close>

definition example_row :: "int \<Rightarrow> pystr \<Rightarrow> pystr \<Rightarrow> int \<Rightarrow> scan_result" where
  "example_row i u a t =
     \<lparr>row_id = i, row_user_id = u, row_ad_copy = a, row_image_name = None,
      row_compliance_score = PyInt 50, row_risk_level = PyStr (pys ''MEDIUM''),
      row_violations = pys ''[]'', row_recommendations = pys ''[]'', row_created_at = t\<rparr>"

definition example_world :: world where
  "example_world =
     \<lparr>scan_results =
        [example_row 1 (pys ''u1'') (pys ''Buy now'') 10,
         example_row 2 (pys ''u2'') (pys ''Other'') 20,
         example_row 3 (pys ''u1'') (replicate 101 0x78) 30],
      classifier_calls = []\<rparr>"

definition example_page :: history where
  "example_page =
     \<lparr>h_user_id = pys ''u1'', total_scans = 1,
      scans = [summary_of (example_row 3 (pys ''u1'') (replicate 101 0x78) 30)]\<rparr>"

text \<open>
  An environment whose classifier answers every call with one reply text, one whose
  classifier fails, and an empty store.
\<close>

definition reply_env :: "pystr \<Rightarrow> env" where
  "reply_env reply =
     \<lparr>classify = (\<lambda>image ad_copy. Inr reply),
      json_error_text = (\<lambda>doc. pys ''Expecting value''),
      isprintable = (\<lambda>c. 0x20 \<le> c \<and> c < 0x7F)\<rparr>"

definition failing_env :: env where
  "failing_env =
     \<lparr>classify = (\<lambda>image ad_copy. Inl (pys ''Connection error.'')),
      json_error_text = (\<lambda>doc. pys ''Expecting value''),
      isprintable = (\<lambda>c. 0x20 \<le> c \<and> c < 0x7F)\<rparr>"

definition empty_world :: world where
  "empty_world = \<lparr>scan_results = [], classifier_calls = []\<rparr>"

text \<open>Two replies of the classifier: a usual one, and one whose values are out of range.\<close>

definition usual_reply :: pystr where
  "usual_reply = pys ''Here is the analysis: {\"compliance_score\": 85, \"risk_level\": \"LOW\", \"violations\": [], \"recommendations\": [\"Add terms\"], \"summary\": \"Fine\"}''"



text \<open>Two replies in which a violation holds a float that is not finite.\<close>

definition nan_reply :: pystr where
  "nan_reply = pys ''{\"compliance_score\": 80, \"risk_level\": \"HIGH\", \"violations\": [{\"category\": NaN}], \"recommendations\": [], \"summary\": \"ok\"}''"

definition infinity_reply :: pystr where
  "infinity_reply = pys ''{\"compliance_score\": 80, \"risk_level\": \"HIGH\", \"violations\": [{\"severity\": Infinity}], \"recommendations\": [], \"summary\": \"ok\"}''"

section \<open>Properties\<close>

lemma pys_simps [simp]: "pys [] = []" "pys (c # cs) = of_char c # pys cs"
  by (simp_all add: pys_def)

subsection \<open>Candidate selection\<close>

text \<open>
  How the backtracking search of the two patterns behaves: a lazy group ends at the first
  occurrence of what follows it, a greedy group at the last, and the search settles on the
  leftmost start from which the whole pattern matches.
\<close>

lemma first_some_map: "first_some f (map g xs) = first_some (\<lambda>x. f (g x)) xs"
  by (induction xs) (auto split: option.splits)

lemma first_some_append:
  "first_some f (xs @ ys) = (case first_some f xs of Some y \<Rightarrow> Some y | None \<Rightarrow> first_some f ys)"
  by (induction xs) (auto split: option.splits)

lemma first_some_None: "first_some f xs = None \<longleftrightarrow> (\<forall>x\<in>set xs. f x = None)"
  by (induction xs) (auto split: option.splits)

lemma upt_Suc_shift: "[0..<Suc (Suc n)] = 0 # map Suc [0..<Suc n]"
  by (simp only: map_Suc_upt) (simp add: upt_rec)

lemma first_some_upt:
  "first_some f [0..<Suc (Suc n)] =
     (case f 0 of Some y \<Rightarrow> Some y | None \<Rightarrow> first_some (\<lambda>k. f (Suc k)) [0..<Suc n])"
  by (simp only: upt_Suc_shift first_some.simps first_some_map)

lemma first_some_rev_upt:
  "first_some f (rev [0..<Suc (Suc n)]) =
     (case first_some (\<lambda>k. f (Suc k)) (rev [0..<Suc n]) of Some y \<Rightarrow> Some y | None \<Rightarrow> f 0)"
  by (simp only: upt_Suc_shift rev.simps rev_map first_some_append first_some_map)
     (simp split: option.splits)

lemma lazy_scan:
  "first_some (\<lambda>k. if take (length p) (drop k t) = p then Some (F k) else None) [0..<Suc (length t)]
     = map_option F (find_sub p t)"
proof (induction t arbitrary: F)
  case Nil
  then show ?case by auto
next
  case (Cons c cs)
  have "first_some (\<lambda>k. if take (length p) (drop k cs) = p then Some (F (Suc k)) else None)
          [0..<Suc (length cs)] = map_option (\<lambda>k. F (Suc k)) (find_sub p cs)"
    by (rule Cons.IH)
  then show ?case
    by (simp add: first_some_upt option.map_comp comp_def del: upt_Suc)
qed

lemma greedy_scan:
  "first_some (\<lambda>k. if take 1 (drop k t) = [c] then Some (F k) else None) (rev [0..<Suc (length t)])
     = map_option F (rfind c t)"
proof (induction t arbitrary: F)
  case Nil
  then show ?case by auto
next
  case (Cons x xs)
  have "first_some (\<lambda>k. if take 1 (drop k xs) = [c] then Some (F (Suc k)) else None)
          (rev [0..<Suc (length xs)]) = map_option (\<lambda>k. F (Suc k)) (rfind c xs)"
    by (rule Cons.IH)
  then show ?case
    by (cases xs) (auto simp add: first_some_rev_upt simp del: upt_Suc split: option.splits)
qed

lemma leftmost_scan:
  assumes closed: "\<And>a b. G (a @ b) = None \<Longrightarrow> G b = None"
  shows "first_some (\<lambda>i. if take (length p) (drop i s) = p then G (drop i s) else None)
           [0..<Suc (length s)]
         = (case find_sub p s of None \<Rightarrow> None | Some i \<Rightarrow> G (drop i s))"
proof (induction s)
  case Nil
  then show ?case by (auto split: option.splits)
next
  case (Cons c cs)
  show ?case
  proof (cases "take (length p) (c # cs) = p")
    case False
    with Cons.IH show ?thesis
      by (simp add: first_some_upt del: upt_Suc split: option.splits cong: if_cong)
  next
    case True
    show ?thesis
    proof (cases "G (c # cs)")
      case (Some y)
      with True show ?thesis by (simp add: first_some_upt del: upt_Suc)
    next
      case None
      have "G (drop k cs) = None" for k
      proof -
        have "G ((c # take k cs) @ drop k cs) = None" using None by simp
        then show ?thesis by (rule closed)
      qed
      then have "first_some (\<lambda>k. if take (length p) (drop k cs) = p then G (drop k cs) else None)
                   [0..<Suc (length cs)] = None"
        by (simp add: first_some_None del: upt_Suc)
      with True None show ?thesis by (simp add: first_some_upt del: upt_Suc cong: if_cong)
    qed
  qed
qed

lemma find_sub_suffix: "find_sub p (a @ b) = None \<Longrightarrow> find_sub p b = None"
  by (induction a) (auto split: if_splits)

lemma rfind_suffix: "rfind c (a @ b) = None \<Longrightarrow> rfind c b = None"
  by (induction a) (auto split: option.splits if_splits)

lemma drop_append_suffix: "\<exists>x. drop k (a @ b) = x @ drop k b"
proof (cases "k \<le> length b")
  case True
  have "drop k (a @ b) = drop k ((a @ take k b) @ drop k b)" by simp
  also have "\<dots> = drop k (a @ take k b) @ drop k b"
    using True by (simp only: drop_append) simp
  finally show ?thesis by blast
next
  case False
  then show ?thesis by simp
qed

lemma find_sub_Some: "find_sub p t = Some j \<Longrightarrow> take (length p) (drop j t) = p \<and> j \<le> length t"
  by (induction t arbitrary: j) (auto split: if_splits)

lemma rfind_Some: "rfind c t = Some j \<Longrightarrow> j < length t \<and> t ! j = c"
  by (induction t arbitrary: j) (auto split: option.splits if_splits)



lemma re_match_lit_end:
  "re_match [Lit q] u = (if take (length q) u = q then Some ([], drop (length q) u) else None)"
  by simp

lemma re_match_lazy_end:
  "re_match [Any_lazy, Lit q] s =
     map_option (\<lambda>j. ([take j s], drop (length q + j) s)) (find_sub q s)"
proof -
  have "re_match [Any_lazy, Lit q] s =
          first_some (\<lambda>k. case re_match [Lit q] (drop k s) of None \<Rightarrow> None
                            | Some (caps, rest) \<Rightarrow> Some (take k s # caps, rest)) [0..<Suc (length s)]"
    by (simp only: re_match.simps)
  also have "(\<lambda>k. case re_match [Lit q] (drop k s) of None \<Rightarrow> None
                            | Some (caps, rest) \<Rightarrow> Some (take k s # caps, rest))
           = (\<lambda>k. if take (length q) (drop k s) = q
                    then Some ([take k s], drop (length q + k) s) else None)"
    by (rule ext) (simp add: re_match_lit_end del: re_match.simps)
  also have "first_some (\<lambda>k. if take (length q) (drop k s) = q
                    then Some ([take k s], drop (length q + k) s) else None) [0..<Suc (length s)]
           = map_option (\<lambda>j. ([take j s], drop (length q + j) s)) (find_sub q s)"
    by (rule lazy_scan)
  finally show ?thesis .
qed

lemma re_match_greedy_end:
  "re_match [Any_greedy, Lit [b]] s =
     map_option (\<lambda>j. ([take j s], drop (Suc j) s)) (rfind b s)"
proof -
  have "re_match [Any_greedy, Lit [b]] s =
          first_some (\<lambda>k. case re_match [Lit [b]] (drop k s) of None \<Rightarrow> None
                            | Some (caps, rest) \<Rightarrow> Some (take k s # caps, rest))
            (rev [0..<Suc (length s)])"
    by (simp only: re_match.simps)
  also have "(\<lambda>k. case re_match [Lit [b]] (drop k s) of None \<Rightarrow> None
                            | Some (caps, rest) \<Rightarrow> Some (take k s # caps, rest))
           = (\<lambda>k. if take 1 (drop k s) = [b]
                    then Some ([take k s], drop (Suc k) s) else None)"
    by (rule ext) (simp add: re_match_lit_end del: re_match.simps)
  also have "first_some (\<lambda>k. if take 1 (drop k s) = [b]
                    then Some ([take k s], drop (Suc k) s) else None) (rev [0..<Suc (length s)])
           = map_option (\<lambda>j. ([take j s], drop (Suc j) s)) (rfind b s)"
    by (rule greedy_scan)
  finally show ?thesis .
qed

lemma re_match_fenced:
  "re_match [Lit p, Any_lazy, Lit q] t =
     (if take (length p) t = p
      then map_option (\<lambda>j. ([take j (drop (length p) t)], drop (length q + j) (drop (length p) t)))
             (find_sub q (drop (length p) t))
      else None)"
  by (simp only: re_match.simps(2) re_match_lazy_end)

lemma re_match_braced:
  "re_match [Lit [a], Any_greedy, Lit [b]] t =
     (if take (length [a]) t = [a]
      then map_option (\<lambda>j. ([take j (drop (length [a]) t)], drop (Suc j) (drop (length [a]) t)))
            (rfind b (drop (length [a]) t))
      else None)"
  by (simp only: re_match.simps(2) re_match_greedy_end)


lemma map_option_first_some:
  "map_option h (first_some f xs) = first_some (\<lambda>x. map_option h (f x)) xs"
  by (induction xs) (auto split: option.splits)

lemma re_search_fenced:
  "map_option (\<lambda>groups. groups ! 1) (re_search [Lit p, Any_lazy, Lit q] s) =
     (case find_sub p s of None \<Rightarrow> None
      | Some i \<Rightarrow> (case find_sub q (drop (i + length p) s) of None \<Rightarrow> None
                    | Some j \<Rightarrow> Some (take j (drop (i + length p) s))))"
proof -
  define G where "G t = map_option (\<lambda>j. take j (drop (length p) t)) (find_sub q (drop (length p) t))" for t
  have closed: "G b = None" if "G (a @ b) = None" for a b
  proof -
    obtain x where "drop (length p) (a @ b) = x @ drop (length p) b"
      using drop_append_suffix by blast
    with that show ?thesis by (auto simp: G_def dest: find_sub_suffix)
  qed
  have "(\<lambda>i. map_option (\<lambda>groups. groups ! 1)
               (case re_match [Lit p, Any_lazy, Lit q] (drop i s) of None \<Rightarrow> None
                | Some (caps, rest) \<Rightarrow>
                    Some (take (length (drop i s) - length rest) (drop i s) # caps)))
        = (\<lambda>i. if take (length p) (drop i s) = p then G (drop i s) else None)"
    by (rule ext) (simp add: re_match_fenced G_def option.map_comp comp_def
          del: re_match.simps length_drop drop_drop split: option.splits)
  then have "map_option (\<lambda>groups. groups ! 1) (re_search [Lit p, Any_lazy, Lit q] s)
        = first_some (\<lambda>i. if take (length p) (drop i s) = p then G (drop i s) else None)
            [0..<Suc (length s)]"
    unfolding re_search_def map_option_first_some by (rule arg_cong)
  also have "\<dots> = (case find_sub p s of None \<Rightarrow> None | Some i \<Rightarrow> G (drop i s))"
    using closed by (rule leftmost_scan)
  finally show ?thesis
    by (simp add: G_def add.commute split: option.splits)
qed

lemma re_search_braced:
  "map_option (\<lambda>groups. groups ! 0) (re_search [Lit [a], Any_greedy, Lit [b]] s) =
     (case find_sub [a] s of None \<Rightarrow> None
      | Some i \<Rightarrow> (case rfind b (drop (Suc i) s) of None \<Rightarrow> None
                    | Some j \<Rightarrow> Some (take (j + 2) (drop i s))))"
proof -
  define G where "G t = map_option (\<lambda>j. take (j + 2) t) (rfind b (drop 1 t))" for t
  have closed: "G y = None" if "G (x @ y) = None" for x y
  proof -
    obtain z where "drop 1 (x @ y) = z @ drop 1 y"
      using drop_append_suffix by blast
    with that show ?thesis by (auto simp: G_def dest: rfind_suffix)
  qed
  have "(\<lambda>i. map_option (\<lambda>groups. groups ! 0)
               (case re_match [Lit [a], Any_greedy, Lit [b]] (drop i s) of None \<Rightarrow> None
                | Some (caps, rest) \<Rightarrow>
                    Some (take (length (drop i s) - length rest) (drop i s) # caps)))
        = (\<lambda>i. if take (length [a]) (drop i s) = [a] then G (drop i s) else None)"
  proof (rule ext)
    fix i
    have "take (length t - length (drop (Suc j) (drop 1 t))) t = take (j + 2) t"
      if "rfind b (drop 1 t) = Some j" for j and t :: pystr
    proof -
      from that have "j < length (drop 1 t)" by (auto dest: rfind_Some)
      then show ?thesis by (auto intro: arg_cong2 [where f = take])
    qed
    then show "map_option (\<lambda>groups. groups ! 0)
               (case re_match [Lit [a], Any_greedy, Lit [b]] (drop i s) of None \<Rightarrow> None
                | Some (caps, rest) \<Rightarrow>
                    Some (take (length (drop i s) - length rest) (drop i s) # caps))
        = (if take (length [a]) (drop i s) = [a] then G (drop i s) else None)"
      by (auto simp add: re_match_braced G_def
          simp del: re_match.simps length_drop drop_drop split: option.splits)
  qed
  then have "map_option (\<lambda>groups. groups ! 0) (re_search [Lit [a], Any_greedy, Lit [b]] s)
        = first_some (\<lambda>i. if take (length [a]) (drop i s) = [a] then G (drop i s) else None)
            [0..<Suc (length s)]"
    unfolding re_search_def map_option_first_some by (rule arg_cong)
  also have "\<dots> = (case find_sub [a] s of None \<Rightarrow> None | Some i \<Rightarrow> G (drop i s))"
    using closed by (rule leftmost_scan)
  finally show ?thesis
    by (simp add: G_def split: option.splits)
qed

lemma length_FENCE_OPEN: "length FENCE_OPEN = 8"
  by (simp add: FENCE_OPEN_def)

lemma extract_json_str_spec: "extract_json_str raw = spec_candidate raw"
proof -
  have fenced: "map_option (\<lambda>groups. groups ! 1) (re_search FENCED_JSON raw) = spec_fenced raw"
    unfolding FENCED_JSON_def spec_fenced_def by (rule re_search_fenced)
  have braced: "map_option (\<lambda>groups. groups ! 0) (re_search BRACED raw) = spec_braced raw"
    unfolding BRACED_def spec_braced_def by (rule re_search_braced)
  show ?thesis
  proof (cases "re_search FENCED_JSON raw")
    case (Some m)
    with fenced show ?thesis
      by (simp add: extract_json_str_def spec_candidate_def flip: fenced)
  next
    case None
    with fenced have "spec_fenced raw = None" by simp
    with None braced show ?thesis
      by (cases "re_search BRACED raw")
         (simp_all add: extract_json_str_def spec_candidate_def flip: braced)
  qed
qed


text \<open>
  Claim C5. For every reply text the candidate handed to \<^verbatim>\<open>json.loads\<close> is the one
  the specification describes: the inner content of the first fenced block marked as JSON
  when there is one; else the span from the first opening brace to the last closing brace
  when a closing brace follows an opening one; else the reply text itself.
\<close>

theorem candidate_selection: "extract_json_str raw = spec_candidate raw"
  by (rule extract_json_str_spec)

text \<open>
  The three cases at work: a reply with a fenced block, a reply with braces in prose, a
  reply with neither.
\<close>

theorem candidate_selection_witness:
  "extract_json_str (pys ''Result: ```json'' @ [0x0A] @ pys ''{\"a\": 1}'' @ [0x0A] @ pys ''``` {x}'')
     = pys ''{\"a\": 1}''
   \<and> extract_json_str (pys ''Sure {\"a\": {\"b\": 2}} and } more'') = pys ''{\"a\": {\"b\": 2}} and }''
   \<and> extract_json_str (pys ''} no json {'') = pys ''} no json {''"
  unfolding candidate_selection
  by (simp add: spec_candidate_def spec_fenced_def spec_braced_def FENCE_OPEN_def FENCE_CLOSE_def)

subsection \<open>The history listing\<close>

lemma example_page_eq:
  "get_scan_history SQLite (pys ''u1'') (Some 1) example_world = Inr example_page"
  by (simp add: get_scan_history_def query_history_def sql_limit_def example_world_def
        example_page_def example_row_def)

lemma query_history_rows:
  assumes "0 \<le> n"
  shows "\<exists>rows. query_history d u n tbl = Inr rows
           \<and> int (length rows) \<le> n
           \<and> length rows = min (nat n) (length (filter (\<lambda>r. row_user_id r = u) tbl))
           \<and> (\<forall>r\<in>set rows. r \<in> set tbl \<and> row_user_id r = u)
           \<and> sorted_wrt (\<lambda>a b. row_created_at b \<le> row_created_at a) rows"
proof -
  let ?sorted = "sort_key (\<lambda>r. - row_created_at r) (filter (\<lambda>r. row_user_id r = u) tbl)"
  have "sorted (map (\<lambda>r. - row_created_at r) ?sorted)" by (rule sorted_sort_key)
  then have "sorted_wrt (\<lambda>a b. row_created_at b \<le> row_created_at a) ?sorted"
    by (simp add: sorted_map)
  then have "sorted_wrt (\<lambda>a b. row_created_at b \<le> row_created_at a) (take (nat n) ?sorted)"
    by (rule sorted_wrt_take)
  moreover have "\<forall>r\<in>set (take (nat n) ?sorted). r \<in> set tbl \<and> row_user_id r = u"
    by (auto dest: in_set_takeD)
  moreover have "int (length (take (nat n) ?sorted)) \<le> n"
  proof -
    have "length (take (nat n) ?sorted) \<le> nat n" by (simp only: length_take min.cobounded2)
    with assms show ?thesis by linarith
  qed
  moreover have "length (take (nat n) ?sorted)
      = min (nat n) (length (filter (\<lambda>r. row_user_id r = u) tbl))"
    by (simp only: length_take length_sort min.commute)
  moreover have "query_history d u n tbl = Inr (take (nat n) ?sorted)"
    using assms by (simp only: query_history_def sql_limit_def if_True)
  ultimately show ?thesis by blast
qed




text \<open>
  Claim C10, as the code has it. In the history response \<^verbatim>\<open>total_scans\<close> is the
  length of the returned list; when the limit is not negative and the user has more rows
  than the limit, it equals the limit, not the number of rows the user has.
\<close>

theorem total_scans_counts_the_page:
  assumes "get_scan_history d u limit_arg w = Inr h"
    and "N = (case limit_arg of None \<Rightarrow> 10 | Some n \<Rightarrow> n)"
  shows "total_scans h = length (scans h)
           \<and> (0 \<le> N \<and> N < int (length (filter (\<lambda>r. row_user_id r = u) (scan_results w)))
                \<longrightarrow> int (total_scans h) = N)"
proof -
  have first: "total_scans h = length (scans h)"
    using assms(1) by (auto simp add: get_scan_history_def split: sum.splits)
  have "int (total_scans h) = N"
    if nonneg: "0 \<le> N"
      and more: "N < int (length (filter (\<lambda>r. row_user_id r = u) (scan_results w)))"
  proof -
    from query_history_rows [OF nonneg, of d u "scan_results w"]
    obtain rows where rows: "query_history d u N (scan_results w) = Inr rows"
      and len: "length rows = min (nat N) (length (filter (\<lambda>r. row_user_id r = u) (scan_results w)))"
      by blast
    then have "total_scans h = length rows"
      using assms by (auto simp add: get_scan_history_def)
    with len nonneg more show ?thesis by simp
  qed
  with first show ?thesis by blast
qed

theorem total_scans_counts_the_page_witness:
  "get_scan_history SQLite (pys ''u1'') (Some 1) example_world = Inr example_page
   \<and> total_scans example_page = length (scans example_page)
   \<and> int (total_scans example_page) = 1
   \<and> length (filter (\<lambda>r. row_user_id r = pys ''u1'') (scan_results example_world)) = 2"
  using total_scans_counts_the_page [OF example_page_eq, of 1] example_page_eq
  by (simp add: example_world_def example_row_def)

text \<open>
  With a negative limit on SQLite the user has more rows than the limit, and
  \<^verbatim>\<open>total_scans\<close> is the number of the user's rows, not the limit.
\<close>

theorem negative_limit_total_scans:
  "map_sum id total_scans (get_scan_history SQLite (pys ''u1'') (Some (- 1)) example_world) = Inr 2
   \<and> - 1 < int (length (filter (\<lambda>r. row_user_id r = pys ''u1'') (scan_results example_world)))
   \<and> int 2 \<noteq> - 1"
  by (simp add: get_scan_history_def query_history_def sql_limit_def example_world_def
        example_row_def)

text \<open>
  Claim C8. Every entry of the history listing belongs to a stored row of the user, and
  its \<^verbatim>\<open>ad_copy_preview\<close> is the row's ad copy itself when that has at most 100
  characters, and otherwise its first 100 characters followed by three full stops.
\<close>

theorem history_preview:
  assumes "get_scan_history d u limit_arg w = Inr h" and "s \<in> set (scans h)"
  shows "\<exists>r\<in>set (scan_results w).
           h_scan_id s = row_id r \<and> row_user_id r = u
           \<and> ad_copy_preview s =
               (if length (row_ad_copy r) \<le> 100 then row_ad_copy r
                else take 100 (row_ad_copy r) @ pys ''...'')"
proof -
  obtain rows where rows: "query_history d u (case limit_arg of None \<Rightarrow> 10 | Some n \<Rightarrow> n)
      (scan_results w) = Inr rows" and h: "scans h = map summary_of rows"
    using assms(1) by (auto simp add: get_scan_history_def split: sum.splits)
  have sub: "set rows \<subseteq> {r \<in> set (scan_results w). row_user_id r = u}"
    using rows
    by (auto simp add: query_history_def sql_limit_def split: if_splits dialect.splits
             dest: in_set_takeD)
  from assms(2) h obtain r where "r \<in> set rows" and "s = summary_of r" by auto
  with sub show ?thesis
    by (auto simp add: summary_of_def preview_def)
qed

theorem history_preview_witness:
  "\<exists>r\<in>set (scan_results example_world).
      h_scan_id (summary_of (example_row 3 (pys ''u1'') (replicate 101 0x78) 30)) = row_id r
      \<and> row_user_id r = pys ''u1''
      \<and> ad_copy_preview (summary_of (example_row 3 (pys ''u1'') (replicate 101 0x78) 30)) =
          (if length (row_ad_copy r) \<le> 100 then row_ad_copy r
           else take 100 (row_ad_copy r) @ pys ''...'')"
  using history_preview [OF example_page_eq,
      of "summary_of (example_row 3 (pys ''u1'') (replicate 101 0x78) 30)"]
  by (simp add: example_page_def)

subsection \<open>Reading back what repr printed\<close>

lemma hex_value_hex_digit: "d < 16 \<Longrightarrow> hex_value (hex_digit d) = Some d"
  by (auto simp: hex_value_def hex_digit_def)

lemma length_hex_digits [simp]: "length (hex_digits k n) = k"
  by (induction k) auto

lemma hex_number_hex_digits: "hex_number (hex_digits k n) = Some (n mod 16 ^ k)"
proof (induction k)
  case 0
  then show ?case by simp
next
  case (Suc k)
  have "n mod (16 ^ k * 16) = 16 ^ k * (n div 16 ^ k mod 16) + n mod 16 ^ k"
    by (rule mod_mult2_eq)
  with Suc show ?case
    by (simp add: hex_value_hex_digit mult.commute)
qed

lemma hex_escape_hex_digits:
  "n < 16 ^ k \<Longrightarrow> hex_escape k (hex_digits k n @ r) = Some (n, r)"
  by (simp add: hex_escape_def hex_number_hex_digits)

lemma lit_string_repr_char:
  assumes "c < 0x110000" and "q = 0x27 \<or> q = 0x22"
  shows "lit_string q (repr_char pr q c @ rest) =
           map_option (\<lambda>(t, r). (c # t, r)) (lit_string q rest)"
proof -
  have x2: "hex_escape 2 (hex_digits 2 c @ rest) = Some (c, rest)" if "c \<le> 0xFF"
    using that by (intro hex_escape_hex_digits) simp
  have x4: "hex_escape 4 (hex_digits 4 c @ rest) = Some (c, rest)" if "c \<le> 0xFFFF"
    using that by (intro hex_escape_hex_digits) simp
  have x8: "hex_escape 8 (hex_digits 8 c @ rest) = Some (c, rest)"
    using assms(1) by (intro hex_escape_hex_digits) simp
  show ?thesis
    using assms x2 x4 x8
    by (auto simp add: repr_char_def lit_escape_seq_def lit_escape_def is_surrogate_def
             simp del: hex_digits.simps)
qed

lemma lit_string_repr_body:
  assumes "valid_str s" and "q = 0x27 \<or> q = 0x22"
  shows "lit_string q (concat (map (repr_char pr q) s) @ q # rest) = Some (s, rest)"
  using assms(1)
proof (induction s)
  case Nil
  then show ?case by simp
next
  case (Cons c s)
  then have "c < 0x110000" and "valid_str s" by (simp_all add: valid_str_def)
  with Cons.IH assms(2) show ?case
    by (simp add: lit_string_repr_char del: lit_string.simps)
qed

lemma repr_quote_cases: "repr_quote s = 0x27 \<or> repr_quote s = 0x22"
  by (simp add: repr_quote_def)

lemma lit_string_repr_str:
  "valid_str s \<Longrightarrow>
     lit_string (repr_quote s) (tl (repr_str pr s) @ rest) = Some (s, rest)"
  using lit_string_repr_body [of s "repr_quote s" pr rest] repr_quote_cases [of s]
  by (simp add: repr_str_def del: lit_string.simps)

lemma dec_digits_not_Nil: "dec_digits n \<noteq> []"
  by (subst dec_digits.simps) simp

lemma dec_digits_are_digits: "d \<in> set (dec_digits n) \<Longrightarrow> is_digit d"
proof (induction n arbitrary: d rule: dec_digits.induct)
  case (1 n)
  show ?case
  proof (cases "n < 10")
    case True
    with "1.prems" show ?thesis
      by (subst (asm) dec_digits.simps) (simp add: is_digit_def)
  next
    case False
    with "1.prems" have "d \<in> set (dec_digits (n div 10)) \<or> d = 0x30 + n mod 10"
      by (subst (asm) dec_digits.simps) auto
    then show ?thesis
    proof
      assume "d \<in> set (dec_digits (n div 10))"
      with False "1.IH" show ?thesis by simp
    next
      assume "d = 0x30 + n mod 10"
      moreover have "n mod 10 < 10" by simp
      ultimately show ?thesis by (simp add: is_digit_def)
    qed
  qed
qed

lemma int_of_digits_snoc: "int_of_digits (ds @ [d]) = 10 * int_of_digits ds + (d - 0x30)"
  by (simp add: int_of_digits_def)

lemma int_of_dec_digits: "int_of_digits (dec_digits n) = n"
proof (induction n rule: dec_digits.induct)
  case (1 n)
  show ?case
  proof (cases "n < 10")
    case True
    then show ?thesis by (subst dec_digits.simps) (simp add: int_of_digits_def)
  next
    case False
    with "1.IH" show ?thesis
      by (subst dec_digits.simps) (simp add: int_of_digits_snoc)
  qed
qed

lemma dec_digits_leading_zero: "hd (dec_digits n) = 0x30 \<Longrightarrow> dec_digits n = [0x30]"
proof (induction n rule: dec_digits.induct)
  case (1 n)
  show ?case
  proof (cases "n < 10")
    case True
    with "1.prems" show ?thesis by (subst dec_digits.simps, subst (asm) dec_digits.simps) simp
  next
    case False
    with "1.prems" have "hd (dec_digits (n div 10)) = 0x30"
      by (subst (asm) dec_digits.simps) (simp add: dec_digits_not_Nil)
    with False "1.IH" have "dec_digits (n div 10) = [0x30]" by simp
    then have "int_of_digits (dec_digits (n div 10)) = 0" by (simp add: int_of_digits_def)
    then have "n div 10 = 0" by (simp add: int_of_dec_digits)
    with False show ?thesis by simp
  qed
qed

lemma match_frac_end: "number_end rest \<Longrightarrow> match_frac rest = ([], rest)"
  by (auto simp: number_end_def match_frac_def split: list.splits)

lemma match_exp_end: "number_end rest \<Longrightarrow> match_exp rest = ([], rest)"
  by (auto simp: number_end_def match_exp_def split: list.splits)

lemma digits_span:
  assumes "\<forall>d\<in>set ds. is_digit d" and "number_end rest"
  shows "takeWhile is_digit (ds @ rest) = ds" and "dropWhile is_digit (ds @ rest) = rest"
proof -
  have "takeWhile is_digit rest = []" and "dropWhile is_digit rest = rest"
    using assms(2) by (auto simp: number_end_def split: list.splits)
  with assms(1) show "takeWhile is_digit (ds @ rest) = ds"
    and "dropWhile is_digit (ds @ rest) = rest"
    by (simp_all add: takeWhile_append2 dropWhile_append2)
qed

lemma lit_number_digits:
  assumes nonempty: "ds \<noteq> []" and digits: "\<forall>d\<in>set ds. is_digit d"
    and zero: "hd ds = 0x30 \<Longrightarrow> ds = [0x30]" and rest: "number_end rest"
  shows "lit_number (ds @ rest) = Some (PyInt (int (int_of_digits ds)), rest)"
    and "lit_number (0x2D # ds @ rest) = Some (PyInt (- int (int_of_digits ds)), rest)"
proof -
  obtain c cs where ds: "ds = c # cs" using nonempty by (cases ds) auto
  then have c: "is_digit c" and cs: "\<forall>d\<in>set cs. is_digit d" using digits by auto
  have span: "takeWhile is_digit (cs @ rest) = cs" "dropWhile is_digit (cs @ rest) = rest"
    using digits_span [OF cs rest] by simp_all
  have lead: "c = 0x30 \<Longrightarrow> cs = []" using zero ds by simp
  have nominus: "c \<noteq> 0x2D" using c by (auto simp: is_digit_def)
  show "lit_number (ds @ rest) = Some (PyInt (int (int_of_digits ds)), rest)"
    using c nominus lead
    by (auto simp add: lit_number_def ds span match_frac_end [OF rest] match_exp_end [OF rest])
  show "lit_number (0x2D # ds @ rest) = Some (PyInt (- int (int_of_digits ds)), rest)"
    using c lead
    by (auto simp add: lit_number_def ds span match_frac_end [OF rest] match_exp_end [OF rest])
qed

lemma lit_number_repr_int:
  assumes "number_end rest"
  shows "lit_number (py_repr pr (PyInt i) @ rest) = Some (PyInt i, rest)"
proof -
  have d: "dec_digits n \<noteq> []" "\<forall>d\<in>set (dec_digits n). is_digit d"
    "hd (dec_digits n) = 0x30 \<Longrightarrow> dec_digits n = [0x30]" for n
    by (simp_all add: dec_digits_not_Nil dec_digits_are_digits dec_digits_leading_zero)
  show ?thesis
  proof (cases "i < 0")
    case True
    then show ?thesis
      using lit_number_digits(2) [OF d assms, of "nat (- i)"]
      by (simp add: int_of_dec_digits)
  next
    case False
    then show ?thesis
      using lit_number_digits(1) [OF d assms, of "nat i"]
      by (simp add: int_of_dec_digits)
  qed
qed

declare lit_value.simps [simp del] lit_list.simps [simp del] lit_dict.simps [simp del]

lemma delim_number_end: "delim rest \<Longrightarrow> number_end rest"
  by (auto simp: delim_def number_end_def is_digit_def split: list.splits)

lemma delim_simps [simp]: "delim (0x2C # r)" "delim (0x5D # r)" "delim (0x7D # r)" "delim []"
  by (simp_all add: delim_def)

lemma value_start_append: "value_start s \<Longrightarrow> value_start (s @ r)"
  by (cases s) (auto simp: value_start_def)

lemma skip_blank_value_start: "value_start s \<Longrightarrow> skip_blank s = s"
  by (cases s) (auto simp: value_start_def skip_blank_def)

lemma skip_blank_space: "skip_blank (0x20 # s) = skip_blank s"
  by (simp add: skip_blank_def is_blank_def)

lemma skip_blank_delim: "delim s \<Longrightarrow> skip_blank s = s"
  by (cases s) (auto simp: delim_def skip_blank_def is_blank_def)

lemma repr_str_start: "value_start (repr_str pr s)"
  using repr_quote_cases [of s] by (auto simp: repr_str_def value_start_def is_blank_def)

lemma dec_digits_start: "value_start (dec_digits n)"
proof -
  obtain c cs where "dec_digits n = c # cs" using dec_digits_not_Nil [of n] by (cases "dec_digits n") auto
  moreover from this have "is_digit c" using dec_digits_are_digits [of c n] by simp
  ultimately show ?thesis by (auto simp: value_start_def is_digit_def is_blank_def)
qed

lemma py_repr_start: "repr_safe v \<Longrightarrow> value_start (py_repr pr v)"
proof (cases v)
  case (PyInt i)
  then show ?thesis
    using dec_digits_start [of "nat i"] by (auto simp: value_start_def is_blank_def)
next
  case (PyStr s)
  then show ?thesis by (simp add: repr_str_start)
qed (auto simp: value_start_def is_blank_def)

lemma lit_value_quote:
  "q = 0x27 \<or> q = 0x22 \<Longrightarrow>
     lit_value (q # cs) = map_option (\<lambda>(t, r). (PyStr t, r)) (lit_string q cs)"
  by (subst lit_value.simps) auto

lemma lit_value_bracket:
  "lit_value (0x5B # cs) =
     (case skip_blank cs of
        [] \<Rightarrow> None
      | d # ds \<Rightarrow>
          (if d = 0x5D then Some (PyList [], ds)
           else map_option (\<lambda>(vs, r). (PyList vs, r)) (lit_list (d # ds))))"
  by (subst lit_value.simps) simp

lemma lit_value_brace:
  "lit_value (0x7B # cs) =
     (case skip_blank cs of
        [] \<Rightarrow> None
      | d # ds \<Rightarrow>
          (if d = 0x7D then Some (PyDict [], ds)
           else map_option (\<lambda>(pairs, r). (PyDict (dict_of_pairs pairs), r)) (lit_dict (d # ds))))"
  by (subst lit_value.simps) simp

lemma lit_value_str:
  assumes "valid_str s"
  shows "lit_value (repr_str pr s @ rest) = Some (PyStr s, rest)"
proof -
  have "repr_str pr s @ rest = repr_quote s # (tl (repr_str pr s) @ rest)"
    by (simp add: repr_str_def)
  then have "lit_value (repr_str pr s @ rest) =
      map_option (\<lambda>(t, r). (PyStr t, r)) (lit_string (repr_quote s) (tl (repr_str pr s) @ rest))"
    by (simp only: lit_value_quote [OF repr_quote_cases])
  then show ?thesis
    by (simp add: lit_string_repr_str [OF assms])
qed

lemma lit_value_int:
  assumes "delim rest"
  shows "lit_value (py_repr pr (PyInt i) @ rest) = Some (PyInt i, rest)"
proof -
  obtain c cs where eq: "py_repr pr (PyInt i) @ rest = c # cs" and c: "is_digit c \<or> c = 0x2D"
  proof (cases "i < 0")
    case True
    then show ?thesis using that by simp
  next
    case False
    obtain c cs where "dec_digits (nat i) = c # cs"
      using dec_digits_not_Nil [of "nat i"] by (cases "dec_digits (nat i)") auto
    moreover from this have "is_digit c" using dec_digits_are_digits [of c "nat i"] by simp
    ultimately show ?thesis using that False by simp
  qed
  have "lit_value (c # cs) = lit_number (c # cs)"
    using c by (subst lit_value.simps) (auto simp: is_digit_def lit_constant_def)
  then show ?thesis
    using lit_number_repr_int [OF delim_number_end [OF assms], of pr i] eq by simp
qed

lemma lit_value_atoms:
  "lit_value (py_repr pr PyNone @ rest) = Some (PyNone, rest)"
  "lit_value (py_repr pr (PyBool b) @ rest) = Some (PyBool b, rest)"
  by (subst lit_value.simps, simp add: lit_constant_def)+

lemma value_start_not_Nil: "value_start s \<Longrightarrow> s \<noteq> []"
  by (auto simp: value_start_def)

lemma join_comma_start:
  "vs \<noteq> [] \<Longrightarrow> \<forall>v\<in>set vs. value_start (f v) \<Longrightarrow> value_start (join_comma (map f vs))"
  by (induction vs rule: induct_list012) (auto intro: value_start_append)

lemma lit_list_last:
  assumes "lit_value (x @ 0x5D # rest) = Some (v, 0x5D # rest)" and "x \<noteq> []"
  shows "lit_list (x @ 0x5D # rest) = Some ([v], rest)"
  using assms by (subst lit_list.simps) (simp add: skip_blank_delim)

lemma lit_list_more:
  assumes "lit_value (x @ 0x2C # 0x20 # Y) = Some (v, 0x2C # 0x20 # Y)" and "x \<noteq> []"
    and "value_start Y"
  shows "lit_list (x @ 0x2C # 0x20 # Y) = map_option (\<lambda>(vs, r'). (v # vs, r')) (lit_list Y)"
  using assms
  by (subst lit_list.simps) (simp add: skip_blank_delim skip_blank_space skip_blank_value_start)

lemma lit_list_join:
  assumes elem: "\<And>v rest. v \<in> set vs \<Longrightarrow> delim rest \<Longrightarrow>
                   lit_value (py_repr pr v @ rest) = Some (v, rest)"
    and safe: "\<forall>v\<in>set vs. repr_safe v" and nonempty: "vs \<noteq> []"
  shows "lit_list (join_comma (map (py_repr pr) vs) @ 0x5D # rest) = Some (vs, rest)"
  using nonempty elem safe
proof (induction vs rule: list_nonempty_induct)
  case (single v)
  have "lit_value (py_repr pr v @ 0x5D # rest) = Some (v, 0x5D # rest)"
    by (rule single.prems(1)) simp_all
  moreover have "py_repr pr v \<noteq> []"
    using single.prems(2) by (auto dest: py_repr_start value_start_not_Nil)
  ultimately show ?case
    using lit_list_last [of "py_repr pr v" rest v] by simp
next
  case (cons v vs)
  let ?Y = "join_comma (map (py_repr pr) vs) @ 0x5D # rest"
  have Y: "value_start ?Y"
    using cons.hyps cons.prems(2)
    by (intro value_start_append join_comma_start) (auto intro: py_repr_start)
  have "lit_value (py_repr pr v @ 0x2C # 0x20 # ?Y) = Some (v, 0x2C # 0x20 # ?Y)"
    by (rule cons.prems(1)) simp_all
  moreover have "py_repr pr v \<noteq> []"
    using cons.prems(2) by (auto dest: py_repr_start value_start_not_Nil)
  ultimately have "lit_list (py_repr pr v @ 0x2C # 0x20 # ?Y) =
      map_option (\<lambda>(vs, r'). (v # vs, r')) (lit_list ?Y)"
    using lit_list_more [of "py_repr pr v" ?Y v] Y by simp
  moreover have "lit_list ?Y = Some (vs, rest)"
    using cons.prems by (intro cons.IH) auto
  moreover have "join_comma (map (py_repr pr) (v # vs)) = py_repr pr v @ 0x2C # 0x20 # join_comma (map (py_repr pr) vs)"
    using cons.hyps by (cases vs) auto
  ultimately show ?case by simp
qed

lemma py_repr_dict:
  "py_repr pr (PyDict kvs) = 0x7B # join_comma (map (repr_item pr) kvs) @ [0x7D]"
proof -
  have "(\<lambda>(k, v). repr_str pr k @ pys '': '' @ py_repr pr v) = repr_item pr"
    by (rule ext) (simp add: repr_item_def case_prod_beta)
  then show ?thesis by simp
qed

lemma repr_item_start: "value_start (repr_item pr kv)"
  by (simp add: repr_item_def value_start_append repr_str_start)

lemma lit_dict_item:
  assumes k: "valid_str k" and v: "lit_value (py_repr pr v @ R) = Some (v, R)"
    and safe: "repr_safe v"
  shows "lit_dict (repr_item pr (k, v) @ R) =
     (case skip_blank R of
        [] \<Rightarrow> None
      | d # ds \<Rightarrow>
          (if d = 0x7D then Some ([(k, v)], ds)
           else if d = 0x2C
           then map_option (\<lambda>(pairs, r'). ((k, v) # pairs, r')) (lit_dict (skip_blank ds))
           else None))"
proof -
  let ?tail = "0x3A # 0x20 # py_repr pr v @ R"
  have s: "repr_item pr (k, v) @ R = repr_quote k # (tl (repr_str pr k) @ ?tail)"
    by (simp add: repr_item_def repr_str_def)
  have key: "lit_string (repr_quote k) (tl (repr_str pr k) @ ?tail) = Some (k, ?tail)"
    by (rule lit_string_repr_str [OF k])
  have colon: "skip_blank ?tail = ?tail"
    by (simp add: skip_blank_def is_blank_def)
  have val: "skip_blank (0x20 # py_repr pr v @ R) = py_repr pr v @ R"
    using py_repr_start [OF safe, of pr]
    by (simp add: skip_blank_space skip_blank_value_start value_start_append)
  have len: "length R < length (repr_quote k # (tl (repr_str pr k) @ ?tail))"
    by simp
  show ?thesis
    unfolding s
    using repr_quote_cases [of k] len
    by (subst lit_dict.simps) (auto simp add: key colon val v simp del: length_append)
qed

lemma lit_dict_join:
  assumes elem: "\<And>k v rest. (k, v) \<in> set kvs \<Longrightarrow> delim rest \<Longrightarrow>
                   lit_value (py_repr pr v @ rest) = Some (v, rest)"
    and safe: "\<forall>(k, v)\<in>set kvs. valid_str k \<and> repr_safe v" and nonempty: "kvs \<noteq> []"
  shows "lit_dict (join_comma (map (repr_item pr) kvs) @ 0x7D # rest) = Some (kvs, rest)"
  using nonempty elem safe
proof (induction kvs rule: list_nonempty_induct)
  case (single kv)
  obtain k v where kv: "kv = (k, v)" by (cases kv)
  have "lit_value (py_repr pr v @ 0x7D # rest) = Some (v, 0x7D # rest)"
    using kv by (intro single.prems(1) [of k]) simp_all
  then show ?case
    using single.prems(2) kv lit_dict_item [of k pr v "0x7D # rest"]
    by (simp add: skip_blank_delim)
next
  case (cons kv kvs)
  obtain k v where kv: "kv = (k, v)" by (cases kv)
  let ?Y = "join_comma (map (repr_item pr) kvs) @ 0x7D # rest"
  have Y: "value_start ?Y"
    using cons.hyps
    by (intro value_start_append join_comma_start) (auto intro: repr_item_start)
  have "lit_value (py_repr pr v @ 0x2C # 0x20 # ?Y) = Some (v, 0x2C # 0x20 # ?Y)"
    using kv by (intro cons.prems(1) [of k]) simp_all
  then have "lit_dict (repr_item pr (k, v) @ 0x2C # 0x20 # ?Y) =
      map_option (\<lambda>(pairs, r'). ((k, v) # pairs, r')) (lit_dict ?Y)"
    using cons.prems(2) kv lit_dict_item [of k pr v "0x2C # 0x20 # ?Y"] Y
    by (simp add: skip_blank_delim skip_blank_space skip_blank_value_start)
  moreover have "lit_dict ?Y = Some (kvs, rest)"
    using cons.prems by (intro cons.IH) auto
  moreover have "join_comma (map (repr_item pr) (kv # kvs)) =
      repr_item pr kv @ 0x2C # 0x20 # join_comma (map (repr_item pr) kvs)"
    using cons.hyps by (cases kvs) auto
  ultimately show ?case using kv by simp
qed

lemma dict_set_fresh: "k \<notin> fst ` set d \<Longrightarrow> dict_set d k v = d @ [(k, v)]"
  by (induction d) auto

lemma foldl_dict_set_distinct:
  "distinct (map fst (d @ kvs)) \<Longrightarrow> foldl (\<lambda>d (k, v). dict_set d k v) d kvs = d @ kvs"
proof (induction kvs arbitrary: d)
  case Nil
  then show ?case by simp
next
  case (Cons kv kvs)
  obtain k v where kv: "kv = (k, v)" by (cases kv)
  have "dict_set d k v = d @ [(k, v)]"
    using Cons.prems kv by (intro dict_set_fresh) auto
  moreover have "distinct (map fst ((d @ [(k, v)]) @ kvs))"
    using Cons.prems kv by simp
  ultimately show ?case
    using Cons.IH [of "d @ [(k, v)]"] kv by simp
qed

lemma dict_of_pairs_distinct: "distinct (map fst kvs) \<Longrightarrow> dict_of_pairs kvs = kvs"
  using foldl_dict_set_distinct [of "[]" kvs] by (simp add: dict_of_pairs_def)

theorem lit_value_py_repr:
  "repr_safe v \<Longrightarrow> delim rest \<Longrightarrow> lit_value (py_repr pr v @ rest) = Some (v, rest)"
proof (induction v arbitrary: rest)
  case PyNone
  show ?case by (rule lit_value_atoms)
next
  case (PyBool b)
  show ?case by (rule lit_value_atoms)
next
  case (PyInt i)
  then show ?case by (intro lit_value_int)
next
  case (PyFloat f)
  then show ?case by simp
next
  case (PyStr s)
  then show ?case by (simp add: lit_value_str)
next
  case (PyList vs)
  show ?case
  proof (cases "vs = []")
    case True
    then show ?thesis by (simp add: lit_value_bracket skip_blank_delim)
  next
    case False
    let ?Y = "join_comma (map (py_repr pr) vs) @ 0x5D # rest"
    have safe: "\<forall>v\<in>set vs. repr_safe v"
      using PyList.prems(1) by (simp add: list_all_iff)
    have "lit_list ?Y = Some (vs, rest)"
      using PyList.IH safe False by (intro lit_list_join) auto
    moreover have "value_start ?Y"
      using False safe by (intro value_start_append join_comma_start) (auto intro: py_repr_start)
    ultimately show ?thesis
      by (cases ?Y) (auto simp add: lit_value_bracket skip_blank_value_start value_start_def
            simp del: join_comma.simps)
  qed
next
  case (PyDict kvs)
  show ?case
  proof (cases "kvs = []")
    case True
    then show ?thesis by (simp add: lit_value_brace skip_blank_delim)
  next
    case False
    let ?Y = "join_comma (map (repr_item pr) kvs) @ 0x7D # rest"
    have safe: "\<forall>(k, v)\<in>set kvs. valid_str k \<and> repr_safe v" and dist: "distinct (map fst kvs)"
      using PyDict.prems(1) by (simp_all add: list_all_iff)
    have "lit_value (py_repr pr v @ r) = Some (v, r)" if "(k, v) \<in> set kvs" "delim r" for k v r
      using that safe by (intro PyDict.IH [of "(k, v)" v r]) auto
    then have "lit_dict ?Y = Some (kvs, rest)"
      using safe False by (intro lit_dict_join) auto
    moreover have "value_start ?Y"
      using False by (intro value_start_append join_comma_start) (auto intro: repr_item_start)
    ultimately show ?thesis
      unfolding py_repr_dict
      by (cases ?Y) (auto simp add: lit_value_brace skip_blank_value_start value_start_def
            dict_of_pairs_distinct [OF dist] simp del: join_comma.simps)
  qed
qed

theorem literal_eval_py_repr: "repr_safe v \<Longrightarrow> literal_eval (py_repr pr v) = Inr v"
proof -
  assume safe: "repr_safe v"
  have "lit_value (py_repr pr v @ []) = Some (v, [])"
    using safe by (intro lit_value_py_repr) simp_all
  then show ?thesis
    using py_repr_start [OF safe, of pr]
    by (simp add: literal_eval_def skip_blank_value_start) (simp add: skip_blank_def)
qed

subsection \<open>The scan\<close>

lemma getitem_fallback:
  "getitem (fallback_response e) (pys ''compliance_score'') = Inr (PyInt 50)"
  "getitem (fallback_response e) (pys ''risk_level'') = Inr (PyStr (pys ''MEDIUM''))"
  "getitem (fallback_response e) (pys ''violations'') = Inr (degraded_violations e)"
  "getitem (fallback_response e) (pys ''recommendations'') =
     Inr (PyList [PyStr (pys ''Please try again or contact support'')])"
  "getitem (fallback_response e) (pys ''summary'') =
     Inr (PyStr (pys ''Analysis could not be completed due to technical error''))"
  by (simp_all add: getitem_def fallback_response_def degraded_violations_def)

lemma scan_ad_fallback:
  assumes "analyze_with_ai env ad_copy (upload_data upload) = fallback_response e"
  shows "scan_ad env now ad_copy user_id upload w =
     (Inr (degraded_response (next_id (scan_results w)) e),
      w\<lparr>classifier_calls := classifier_calls w @ [(image_block (upload_data upload), ad_copy)],
        scan_results := scan_results w @
          [degraded_row env (next_id (scan_results w)) now ad_copy user_id (upload_name upload) e]\<rparr>)"
  unfolding scan_ad_def Let_def assms getitem_fallback
  by (simp add: new_ScanResponse_def degraded_response_def degraded_violations_def degraded_row_def
        is_number_def is_str_def is_list_of_def is_dict_def)

text \<open>
  Claim C4. Whenever the classifier call fails, \<^verbatim>\<open>scan_ad\<close> still returns a response
  and stores a row: the response is the degraded result (score 50, level MEDIUM, the one
  violation "Analysis Error" with severity MEDIUM, an empty text snippet and the policy
  reference "System Error", the one recommendation, the fixed summary), and the row holds
  the same score and level for the request's user and ad copy.
\<close>

theorem classifier_failure_degrades:
  assumes "classify env (image_block (upload_data upload)) ad_copy = Inl e"
  shows "\<exists>i. scan_ad env now ad_copy user_id upload w =
     (Inr (degraded_response i e),
      w\<lparr>classifier_calls := classifier_calls w @ [(image_block (upload_data upload), ad_copy)],
        scan_results := scan_results w @
          [degraded_row env i now ad_copy user_id (upload_name upload) e]\<rparr>)"
proof -
  have "analyze_with_ai env ad_copy (upload_data upload) = fallback_response e"
    using assms by (simp add: analyze_with_ai_def)
  then show ?thesis by (blast dest: scan_ad_fallback)
qed

theorem classifier_failure_degrades_witness:
  "classify failing_env (image_block (upload_data None)) (pys ''Buy now'') = Inl (pys ''Connection error.'')
   \<and> (\<exists>i. scan_ad failing_env 1000 (pys ''Buy now'') (pys ''u1'') None empty_world =
         (Inr (degraded_response i (pys ''Connection error.'')),
          empty_world\<lparr>classifier_calls := classifier_calls empty_world @
                 [(image_block (upload_data None), pys ''Buy now'')],
             scan_results := scan_results empty_world @
                 [degraded_row failing_env i 1000 (pys ''Buy now'') (pys ''u1'') (upload_name None)
                    (pys ''Connection error.'')]\<rparr>))"
  using classifier_failure_degrades [of failing_env None "pys ''Buy now''" "pys ''Connection error.''"
      1000 "pys ''u1''" empty_world]
  by (simp add: failing_env_def)

text \<open>Rewrite rules that run the library functions and the handlers on given inputs.\<close>

lemmas candidate_eval =
  extract_json_str_spec spec_candidate_def spec_fenced_def spec_braced_def
  FENCE_OPEN_def FENCE_CLOSE_def

lemmas json_eval =
  json_loads_def skip_ws_def is_json_ws_def is_digit_def scan_constant_def match_number_def
  match_int_part_def match_frac_def match_exp_def int_of_digits_def dict_of_pairs_def
  json_escape_def unicode_escape_def hex4_def hex_value_def

lemmas scan_eval =
  Let_def reply_env_def empty_world_def upload_data_def upload_name_def
  image_block_def getitem_def next_id_def new_ScanResponse_def
  is_number_def is_str_def is_list_of_def is_dict_def

lemma analyze_reply:
  "json_loads (extract_json_str reply) = Some v \<Longrightarrow>
     analyze_with_ai (reply_env reply) ad_copy image_data = v"
  by (simp add: analyze_with_ai_def reply_env_def)

text \<open>
  Claim C1, as the code has it. When the classifier answers and the candidate is not valid
  JSON, \<^verbatim>\<open>analyze_with_ai\<close> returns the fallback dict and \<^verbatim>\<open>scan_ad\<close> answers
  with the degraded result; when the candidate is valid JSON, \<^verbatim>\<open>analyze_with_ai\<close>
  returns the parsed value as it is, whatever its fields and their types.
\<close>

theorem extraction_outcome:
  assumes "classify env (image_block (upload_data upload)) ad_copy = Inr response_text"
  shows "case json_loads (extract_json_str response_text) of
           None \<Rightarrow>
             analyze_with_ai env ad_copy (upload_data upload)
               = fallback_response (json_error_text env (extract_json_str response_text))
             \<and> fst (scan_ad env now ad_copy user_id upload w)
               = Inr (degraded_response (next_id (scan_results w))
                        (json_error_text env (extract_json_str response_text)))
         | Some result \<Rightarrow> analyze_with_ai env ad_copy (upload_data upload) = result"
proof (cases "json_loads (extract_json_str response_text)")
  case None
  then have "analyze_with_ai env ad_copy (upload_data upload)
      = fallback_response (json_error_text env (extract_json_str response_text))"
    using assms by (simp add: analyze_with_ai_def)
  with None show ?thesis by (simp add: scan_ad_fallback)
next
  case (Some result)
  with assms show ?thesis by (simp add: analyze_with_ai_def)
qed

lemma json_loads_prose: "json_loads (extract_json_str (pys ''I cannot help with that.'')) = None"
  by (simp add: candidate_eval json_eval)

lemma json_loads_empty_object: "json_loads (extract_json_str (pys ''{}'')) = Some (PyDict [])"
  by (simp add: candidate_eval json_eval)

theorem extraction_outcome_witness:
  "fst (scan_ad (reply_env (pys ''I cannot help with that.'')) 1000 (pys ''Buy now'') (pys ''u1'')
          None empty_world)
     = Inr (degraded_response 1 (pys ''Expecting value''))
   \<and> analyze_with_ai (reply_env (pys ''{}'')) (pys ''Buy now'') (upload_data None) = PyDict []"
proof -
  have prose: "classify (reply_env (pys ''I cannot help with that.''))
      (image_block (upload_data None)) (pys ''Buy now'') = Inr (pys ''I cannot help with that.'')"
    by (simp add: reply_env_def)
  have object: "classify (reply_env (pys ''{}'')) (image_block (upload_data None)) (pys ''Buy now'')
      = Inr (pys ''{}'')"
    by (simp add: reply_env_def)
  have "fst (scan_ad (reply_env (pys ''I cannot help with that.'')) 1000 (pys ''Buy now'')
          (pys ''u1'') None empty_world)
      = Inr (degraded_response (next_id (scan_results empty_world))
               (json_error_text (reply_env (pys ''I cannot help with that.''))
                  (extract_json_str (pys ''I cannot help with that.''))))"
    using extraction_outcome [OF prose, of 1000 "pys ''u1''" empty_world]
    by (simp only: json_loads_prose option.case)
  moreover have "analyze_with_ai (reply_env (pys ''{}'')) (pys ''Buy now'') (upload_data None)
      = PyDict []"
    using extraction_outcome [OF object]
    by (simp only: json_loads_empty_object option.case)
  ultimately show ?thesis
    by (simp add: reply_env_def empty_world_def next_id_def)
qed

text \<open>
  The claim as the specification states it fails: a reply that is valid JSON without the
  fields is not replaced by the degraded result, and the \<^verbatim>\<open>KeyError\<close> of line 318
  leaves \<^verbatim>\<open>scan_ad\<close> (status 500).
\<close>

theorem empty_object_reply_raises:
  "scan_ad (reply_env (pys ''{}'')) 1000 (pys ''Buy now'') (pys ''u1'') None empty_world
     = (Inl (KeyError (pys ''compliance_score'')),
        \<lparr>scan_results = [], classifier_calls = [(None, pys ''Buy now'')]\<rparr>)
   \<and> http_status (fst (scan_ad (reply_env (pys ''{}'')) 1000 (pys ''Buy now'') (pys ''u1'') None
          empty_world)) = 500"
proof -
  have "scan_ad (reply_env (pys ''{}'')) 1000 (pys ''Buy now'') (pys ''u1'') None empty_world
     = (Inl (KeyError (pys ''compliance_score'')),
        \<lparr>scan_results = [], classifier_calls = [(None, pys ''Buy now'')]\<rparr>)"
    unfolding scan_ad_def analyze_reply [OF json_loads_empty_object]
    by (simp add: scan_eval)
  then show ?thesis by (simp add: http_status_def)
qed







text \<open>
  Claim C6. A request to \<^verbatim>\<open>POST /scan\<close> whose \<^verbatim>\<open>ad_copy\<close> is missing or empty is
  answered with status 422; the handler is not called, so the classifier is not invoked and
  no row is stored: the state is unchanged.
\<close>

theorem missing_ad_copy_rejected:
  assumes "form_ad_copy form = None \<or> form_ad_copy form = Some []"
  shows "post_scan env now form w = (Inl RequestValidationError, w)
         \<and> http_status (fst (post_scan env now form w)) = 422"
  using assms by (auto simp add: post_scan_def bind_form_field_def http_status_def)

theorem missing_ad_copy_rejected_witness:
  "post_scan (reply_env usual_reply) 1000
       \<lparr>form_ad_copy = Some [], form_user_id = Some (pys ''u1''), form_image = None\<rparr> empty_world
     = (Inl RequestValidationError, empty_world)
   \<and> http_status (fst (post_scan (reply_env usual_reply) 1000
       \<lparr>form_ad_copy = Some [], form_user_id = Some (pys ''u1''), form_image = None\<rparr> empty_world))
     = 422
   \<and> post_scan (reply_env usual_reply) 1000
       \<lparr>form_ad_copy = None, form_user_id = None, form_image = None\<rparr> empty_world
     = (Inl RequestValidationError, empty_world)"
  using missing_ad_copy_rejected [of "\<lparr>form_ad_copy = Some [], form_user_id = Some (pys ''u1''),
        form_image = None\<rparr>" "reply_env usual_reply" 1000 empty_world]
    missing_ad_copy_rejected [of "\<lparr>form_ad_copy = None, form_user_id = None,
        form_image = None\<rparr>" "reply_env usual_reply" 1000 empty_world]
  by (simp add: http_status_def)

text \<open>A request with an ad copy reaches the handler.\<close>

lemma post_scan_calls_handler:
  "form_ad_copy form = Some ad_copy \<Longrightarrow> ad_copy \<noteq> [] \<Longrightarrow>
     post_scan env now form w =
       scan_ad env now ad_copy
         (case bind_form_field (form_user_id form) of None \<Rightarrow> pys ''anonymous'' | Some u \<Rightarrow> u)
         (form_image form) w"
  by (simp add: post_scan_def bind_form_field_def)

subsection \<open>Reading a stored scan\<close>

lemmas literal_eval_rules =
  literal_eval_def lit_value.simps lit_list.simps lit_dict.simps lit_constant_def lit_number_def
  lit_escape_seq_def lit_escape_def hex_escape_def skip_blank_def is_blank_def is_digit_def
  is_surrogate_def match_frac_def match_exp_def int_of_digits_def dict_of_pairs_def

lemmas repr_rules =
  py_str_def repr_str_def repr_quote_def repr_char_def repr_float_def

lemma row_id_below_next_id: "r \<in> set rows \<Longrightarrow> row_id r < next_id rows"
  by (induction rows) (auto simp add: next_id_def)

lemma find_new_row:
  assumes "row_id new = next_id rows"
  shows "find (\<lambda>r. row_id r = row_id new) (rows @ [new]) = Some new"
proof -
  have none: "find (\<lambda>r. row_id r = row_id new) rows = None"
    using assms row_id_below_next_id [of _ rows] by (fastforce simp add: find_None_iff)
  have "find P (xs @ [x]) = (case find P xs of None \<Rightarrow> (if P x then Some x else None) | Some y \<Rightarrow> Some y)"
    for P and xs :: "scan_result list" and x
    by (induction xs) simp_all
  with none show ?thesis by simp
qed

text \<open>An unknown id is answered with status 404.\<close>

lemma get_scan_details_not_found:
  assumes "\<forall>r\<in>set (scan_results w). row_id r \<noteq> i"
  shows "get_scan_details i w = Inl (HTTPException 404 (pys ''Scan not found''))"
proof -
  have "find (\<lambda>r. row_id r = i) (scan_results w) = None"
    using assms by (simp add: find_None_iff)
  then show ?thesis by (simp add: get_scan_details_def)
qed

text \<open>A known id is never answered with 404, and with the row when both texts evaluate.\<close>

lemma get_scan_details_found:
  assumes "find (\<lambda>r. row_id r = i) (scan_results w) = Some scan"
    and "literal_eval (row_violations scan) = Inr viols"
    and "literal_eval (row_recommendations scan) = Inr recs"
  shows "get_scan_details i w =
     Inr \<lparr>d_scan_id = row_id scan, d_ad_copy = row_ad_copy scan,
          d_compliance_score = row_compliance_score scan, d_risk_level = row_risk_level scan,
          d_violations = viols, d_recommendations = recs, d_created_at = row_created_at scan\<rparr>"
  using assms by (simp add: get_scan_details_def)

text \<open>
  What is stored for a value that is not a bare string and holds no float evaluates to that
  value.
\<close>

lemma literal_eval_py_str:
  "repr_safe v \<Longrightarrow> \<not> is_str v \<Longrightarrow> literal_eval (py_str pr v) = Inr v"
  by (cases v) (simp_all add: py_str_def is_str_def literal_eval_py_repr del: repr_safe.simps py_repr.simps)

lemma stored_values_read_back:
  assumes viols: "getitem (analyze_with_ai env ad_copy (upload_data upload)) (pys ''violations'') = Inr viols"
    and recs: "getitem (analyze_with_ai env ad_copy (upload_data upload)) (pys ''recommendations'') = Inr recs"
    and score: "getitem (analyze_with_ai env ad_copy (upload_data upload)) (pys ''compliance_score'') = Inr score"
    and level: "getitem (analyze_with_ai env ad_copy (upload_data upload)) (pys ''risk_level'') = Inr level"
    and safe: "repr_safe viols" "\<not> is_str viols" "repr_safe recs" "\<not> is_str recs"
  shows "get_scan_details (next_id (scan_results w)) (snd (scan_ad env now ad_copy user_id upload w)) =
     Inr \<lparr>d_scan_id = next_id (scan_results w), d_ad_copy = ad_copy,
          d_compliance_score = score, d_risk_level = level,
          d_violations = viols, d_recommendations = recs, d_created_at = now\<rparr>"
proof -
  let ?row = "\<lparr>row_id = next_id (scan_results w), row_user_id = user_id, row_ad_copy = ad_copy,
      row_image_name = upload_name upload, row_compliance_score = score, row_risk_level = level,
      row_violations = py_str (isprintable env) viols,
      row_recommendations = py_str (isprintable env) recs, row_created_at = now\<rparr>"
  have stored: "scan_results (snd (scan_ad env now ad_copy user_id upload w)) = scan_results w @ [?row]"
    unfolding scan_ad_def Let_def viols recs score level
    by (simp split: sum.splits)
  have "find (\<lambda>r. row_id r = row_id ?row) (scan_results w @ [?row]) = Some ?row"
    by (rule find_new_row) simp
  then have "find (\<lambda>r. row_id r = next_id (scan_results w))
      (scan_results (snd (scan_ad env now ad_copy user_id upload w))) = Some ?row"
    by (simp add: stored)
  then show ?thesis
    using literal_eval_py_str [OF safe(1,2), of "isprintable env"]
      literal_eval_py_str [OF safe(3,4), of "isprintable env"]
    by (simp add: get_scan_details_def)
qed

lemma json_loads_nan_reply:
  "json_loads (extract_json_str nan_reply) =
     Some (PyDict
       [(pys ''compliance_score'', PyInt 80),
        (pys ''risk_level'', PyStr (pys ''HIGH'')),
        (pys ''violations'', PyList [PyDict [(pys ''category'', PyFloat FloatNaN)]]),
        (pys ''recommendations'', PyList []),
        (pys ''summary'', PyStr (pys ''ok''))])"
  by (simp add: nan_reply_def candidate_eval json_eval)

lemma json_loads_infinity_reply:
  "json_loads (extract_json_str infinity_reply) =
     Some (PyDict
       [(pys ''compliance_score'', PyInt 80),
        (pys ''risk_level'', PyStr (pys ''HIGH'')),
        (pys ''violations'', PyList [PyDict [(pys ''severity'', PyFloat FloatInf)]]),
        (pys ''recommendations'', PyList []),
        (pys ''summary'', PyStr (pys ''ok''))])"
  by (simp add: infinity_reply_def candidate_eval json_eval)

text \<open>
  Claim C3 at a reply whose violation holds \<^verbatim>\<open>NaN\<close>. \<^verbatim>\<open>scan_ad\<close> returns the
  response and stores the row; the stored text of the violations is
  \<^verbatim>\<open>[{'category': nan}]\<close>, which \<^verbatim>\<open>ast.literal_eval\<close> refuses, so
  \<^verbatim>\<open>get_scan_details\<close> raises instead of returning the violations that were stored.
\<close>

theorem nan_violation_is_not_read_back:
  "scan_ad (reply_env nan_reply) 1000 (pys ''Buy now'') (pys ''u1'') None empty_world =
     (Inr \<lparr>scan_id = 1, compliance_score = PyInt 80, risk_level = PyStr (pys ''HIGH''),
            violations = PyList [PyDict [(pys ''category'', PyFloat FloatNaN)]],
            recommendations = PyList [], summary = PyStr (pys ''ok'')\<rparr>,
      \<lparr>scan_results =
         [\<lparr>row_id = 1, row_user_id = pys ''u1'', row_ad_copy = pys ''Buy now'',
           row_image_name = None, row_compliance_score = PyInt 80,
           row_risk_level = PyStr (pys ''HIGH''),
           row_violations = pys ''[{'' @ [0x27] @ pys ''category'' @ [0x27] @ pys '': nan}]'',
           row_recommendations = pys ''[]'',
           row_created_at = 1000\<rparr>],
       classifier_calls = [(None, pys ''Buy now'')]\<rparr>)
   \<and> get_scan_details 1
        (snd (scan_ad (reply_env nan_reply) 1000 (pys ''Buy now'') (pys ''u1'') None empty_world))
      = Inl LiteralError"
proof -
  have scan: "scan_ad (reply_env nan_reply) 1000 (pys ''Buy now'') (pys ''u1'') None empty_world =
     (Inr \<lparr>scan_id = 1, compliance_score = PyInt 80, risk_level = PyStr (pys ''HIGH''),
            violations = PyList [PyDict [(pys ''category'', PyFloat FloatNaN)]],
            recommendations = PyList [], summary = PyStr (pys ''ok'')\<rparr>,
      \<lparr>scan_results =
         [\<lparr>row_id = 1, row_user_id = pys ''u1'', row_ad_copy = pys ''Buy now'',
           row_image_name = None, row_compliance_score = PyInt 80,
           row_risk_level = PyStr (pys ''HIGH''),
           row_violations = pys ''[{'' @ [0x27] @ pys ''category'' @ [0x27] @ pys '': nan}]'',
           row_recommendations = pys ''[]'',
           row_created_at = 1000\<rparr>],
       classifier_calls = [(None, pys ''Buy now'')]\<rparr>)"
    unfolding scan_ad_def analyze_reply [OF json_loads_nan_reply]
    by (simp add: scan_eval repr_rules)
  show ?thesis
    unfolding scan
    by (simp add: get_scan_details_def literal_eval_rules)
qed

text \<open>
  Claim C9 at the id of a stored scan whose text does not evaluate: the id identifies a
  row, and \<^verbatim>\<open>get_scan_details\<close> raises (status 500) instead of returning it.
\<close>

theorem stored_scan_is_not_returned:
  "map row_id (scan_results
       (snd (scan_ad (reply_env infinity_reply) 1000 (pys ''Buy now'') (pys ''u1'') None empty_world)))
     = [1]
   \<and> get_scan_details 1
        (snd (scan_ad (reply_env infinity_reply) 1000 (pys ''Buy now'') (pys ''u1'') None empty_world))
      = Inl LiteralError
   \<and> http_status (get_scan_details 1
        (snd (scan_ad (reply_env infinity_reply) 1000 (pys ''Buy now'') (pys ''u1'') None empty_world)))
      = 500"
proof -
  have scan: "snd (scan_ad (reply_env infinity_reply) 1000 (pys ''Buy now'') (pys ''u1'') None empty_world) =
      \<lparr>scan_results =
         [\<lparr>row_id = 1, row_user_id = pys ''u1'', row_ad_copy = pys ''Buy now'',
           row_image_name = None, row_compliance_score = PyInt 80,
           row_risk_level = PyStr (pys ''HIGH''),
           row_violations = pys ''[{'' @ [0x27] @ pys ''severity'' @ [0x27] @ pys '': inf}]'',
           row_recommendations = pys ''[]'',
           row_created_at = 1000\<rparr>],
       classifier_calls = [(None, pys ''Buy now'')]\<rparr>"
    unfolding scan_ad_def analyze_reply [OF json_loads_infinity_reply]
    by (simp add: scan_eval repr_rules)
  show ?thesis
    unfolding scan
    by (simp add: get_scan_details_def literal_eval_rules http_status_def)
qed


subsection \<open>Every parser consumes input\<close>

lemma match_int_part_length: "match_int_part s = Some (ds, r) \<Longrightarrow> length r < length s"
  by (auto simp add: match_int_part_def split: list.splits if_splits
           intro: le_less_trans [OF length_dropWhile_le])

lemma match_frac_length: "match_frac s = (fr, r) \<Longrightarrow> length r \<le> length s"
  by (auto simp add: match_frac_def split: list.splits if_splits
           intro: le_trans [OF length_dropWhile_le])

lemma match_exp_length: "match_exp s = (ex, r) \<Longrightarrow> length r \<le> length s"
  by (auto simp add: match_exp_def split: list.splits if_splits
           intro: le_trans [OF length_dropWhile_le] le_SucI)

lemma match_number_length: "match_number s = Some (v, r) \<Longrightarrow> length r < length s"
proof -
  assume a: "match_number s = Some (v, r)"
  let ?s1 = "if take 1 s = [0x2D] then drop 1 s else s"
  from a obtain ds r0 fr r1 ex where i: "match_int_part ?s1 = Some (ds, r0)"
    and f: "match_frac r0 = (fr, r1)" and e: "match_exp r1 = (ex, r)"
    by (auto simp add: match_number_def split: option.splits prod.splits if_splits)
  have "length r \<le> length r1" using e by (rule match_exp_length)
  also have "\<dots> \<le> length r0" using f by (rule match_frac_length)
  also have "\<dots> < length ?s1" using i by (rule match_int_part_length)
  also have "\<dots> \<le> length s" by simp
  finally show ?thesis .
qed

lemma drop_shorter: "s \<noteq> [] \<Longrightarrow> 0 < k \<Longrightarrow> length (drop k s) < length s"
  by (cases s) auto

lemma scan_constant_length: "scan_constant s = Some (v, r) \<Longrightarrow> length r < length s"
proof -
  assume a: "scan_constant s = Some (v, r)"
  show ?thesis
  proof (cases "match_number s = Some (v, r)")
    case True
    then show ?thesis by (rule match_number_length)
  next
    case False
    with a have "s \<noteq> []"
      and "r = drop 3 s \<or> r = drop 4 s \<or> r = drop 5 s \<or> r = drop 8 s \<or> r = drop 9 s"
      by (auto simp add: scan_constant_def split: if_splits)
    then show ?thesis by (auto intro: drop_shorter)
  qed
qed

lemma scan_once_Cons:
  "scan_once (c # cs) =
     (if c = 0x22 then map_option (\<lambda>(t, r). (PyStr t, r)) (py_scanstring cs)
      else if c = 0x7B then
        (case skip_ws cs of
           [] \<Rightarrow> None
         | d # ds \<Rightarrow>
             (if d = 0x7D then Some (PyDict [], ds)
              else map_option (\<lambda>(pairs, r). (PyDict (dict_of_pairs pairs), r))
                     (parse_object (d # ds))))
      else if c = 0x5B then
        (case skip_ws cs of
           [] \<Rightarrow> None
         | d # ds \<Rightarrow>
             (if d = 0x5D then Some (PyList [], ds)
              else map_option (\<lambda>(vs, r). (PyList vs, r)) (parse_array (d # ds))))
      else scan_constant (c # cs))"
  by (subst scan_once.simps) simp

lemma scan_once_length:
  "scan_once s = Some (v, r) \<Longrightarrow> length r < length s"
  "parse_array s = Some (vs, r) \<Longrightarrow> length r < length s"
  "parse_object s = Some (kvs, r) \<Longrightarrow> length r < length s"
proof (induction s and s and s arbitrary: v r and vs r and kvs r
       rule: scan_once_parse_array_parse_object.induct)
  case (1 s)
  from "1.prems" obtain c cs where s: "s = c # cs"
    by (cases s) (simp_all add: scan_once.simps [of "[]"])
  have eq: "scan_once (c # cs) = Some (v, r)" using "1.prems" s by simp
  consider (str) "c = 0x22" | (obj) "c \<noteq> 0x22" "c = 0x7B"
    | (arr) "c \<noteq> 0x22" "c \<noteq> 0x7B" "c = 0x5B"
    | (atom) "c \<noteq> 0x22" "c \<noteq> 0x7B" "c \<noteq> 0x5B"
    by blast
  then show ?case
  proof cases
    case str
    with eq have "map_option (\<lambda>(t, r). (PyStr t, r)) (py_scanstring cs) = Some (v, r)"
      by (simp add: scan_once_Cons del: scan_once.simps parse_array.simps parse_object.simps)
    then obtain t where "py_scanstring cs = Some (t, r)" by auto
    then have "length r < length cs" by (rule py_scanstring_length)
    then show ?thesis using s by simp
  next
    case obj
    from eq obj have body: "(case skip_ws cs of
           [] \<Rightarrow> None
         | d # ds \<Rightarrow>
             (if d = 0x7D then Some (PyDict [], ds)
              else map_option (\<lambda>(pairs, r). (PyDict (dict_of_pairs pairs), r))
                     (parse_object (d # ds)))) = Some (v, r)"
      by (simp add: scan_once_Cons del: scan_once.simps parse_array.simps parse_object.simps)
    then obtain d ds where ws: "skip_ws cs = d # ds" by (cases "skip_ws cs") auto
    then have len: "length ds < length cs" by (rule skip_ws_Cons_length)
    show ?thesis
    proof (cases "d = 0x7D")
      case True
      with body ws have "r = ds" by simp
      with len s show ?thesis by simp
    next
      case False
      with body ws obtain pairs where "parse_object (d # ds) = Some (pairs, r)" by auto
      then have "length r < length (d # ds)" by (rule "1.IH"(1) [OF s obj ws False])
      with len s show ?thesis by simp
    qed
  next
    case arr
    from eq arr have body: "(case skip_ws cs of
           [] \<Rightarrow> None
         | d # ds \<Rightarrow>
             (if d = 0x5D then Some (PyList [], ds)
              else map_option (\<lambda>(vs, r). (PyList vs, r)) (parse_array (d # ds)))) = Some (v, r)"
      by (simp add: scan_once_Cons del: scan_once.simps parse_array.simps parse_object.simps)
    then obtain d ds where ws: "skip_ws cs = d # ds" by (cases "skip_ws cs") auto
    then have len: "length ds < length cs" by (rule skip_ws_Cons_length)
    show ?thesis
    proof (cases "d = 0x5D")
      case True
      with body ws have "r = ds" by simp
      with len s show ?thesis by simp
    next
      case False
      with body ws obtain vs where "parse_array (d # ds) = Some (vs, r)" by auto
      then have "length r < length (d # ds)" by (rule "1.IH"(2) [OF s arr ws False])
      with len s show ?thesis by simp
    qed
  next
    case atom
    with eq have "scan_constant (c # cs) = Some (v, r)"
      by (simp add: scan_once_Cons del: scan_once.simps parse_array.simps parse_object.simps)
    then show ?thesis using s by (auto dest: scan_constant_length)
  qed
next
  case (2 s)
  from "2.prems" obtain v r0 where v: "scan_once s = Some (v, r0)" and g: "length r0 < length s"
    and rest: "(case skip_ws r0 of
                [] \<Rightarrow> None
              | d # ds \<Rightarrow>
                  (if d = 0x5D then Some ([v], ds)
                   else if d = 0x2C
                   then map_option (\<lambda>(vs, r'). (v # vs, r')) (parse_array (skip_ws ds))
                   else None)) = Some (vs, r)"
    by (subst (asm) parse_array.simps) (auto split: option.splits if_splits)
  from rest obtain d ds where ws: "skip_ws r0 = d # ds" by (cases "skip_ws r0") auto
  then have len: "length ds < length r0" by (rule skip_ws_Cons_length)
  show ?case
  proof (cases "d = 0x5D")
    case True
    with rest ws have "r = ds" by simp
    with len g show ?thesis by simp
  next
    case False
    with rest ws have comma: "d = 0x2C" by (auto split: if_splits)
    with rest ws False obtain vs' where "parse_array (skip_ws ds) = Some (vs', r)" by auto
    then have "length r < length (skip_ws ds)"
      by (rule "2.IH"(2) [OF v refl g ws False comma])
    also have "\<dots> \<le> length ds" by (rule length_skip_ws)
    finally show ?thesis using len g by simp
  qed
next
  case (3 s)
  from "3.prems" obtain q s1 where s: "s = q # s1"
    by (cases s) (simp_all add: parse_object.simps [of "[]"])
  from "3.prems" s have q: "q = 0x22"
    by (subst (asm) parse_object.simps) (auto split: if_splits)
  from "3.prems" s q obtain key r0 where key: "py_scanstring s1 = Some (key, r0)"
    by (subst (asm) parse_object.simps) (auto split: option.splits)
  from "3.prems" s q key obtain colon r1 where ws1: "skip_ws r0 = colon # r1"
    by (subst (asm) parse_object.simps) (auto split: list.splits)
  from "3.prems" s q key ws1 have colon: "colon = 0x3A"
    by (subst (asm) parse_object.simps) (auto split: if_splits)
  from "3.prems" s q key ws1 colon obtain v r2 where v: "scan_once (skip_ws r1) = Some (v, r2)"
    by (subst (asm) parse_object.simps) (auto split: option.splits)
  from "3.prems" s q key ws1 colon v have g: "length r2 < length s"
    by (subst (asm) parse_object.simps) (auto split: if_splits)
  from "3.prems" s q key ws1 colon v g have rest: "(case skip_ws r2 of
        [] \<Rightarrow> None
      | d # ds \<Rightarrow>
          (if d = 0x7D then Some ([(key, v)], ds)
           else if d = 0x2C
           then map_option (\<lambda>(pairs, r'). ((key, v) # pairs, r')) (parse_object (skip_ws ds))
           else None)) = Some (kvs, r)"
    by (subst (asm) parse_object.simps) simp
  from rest obtain d ds where ws: "skip_ws r2 = d # ds" by (cases "skip_ws r2") auto
  then have len: "length ds < length r2" by (rule skip_ws_Cons_length)
  show ?case
  proof (cases "d = 0x7D")
    case True
    with rest ws have "r = ds" by simp
    with len g show ?thesis by simp
  next
    case False
    with rest ws have comma: "d = 0x2C" by (auto split: if_splits)
    with rest ws False obtain kvs' where "parse_object (skip_ws ds) = Some (kvs', r)" by auto
    then have "length r < length (skip_ws ds)"
      using "3.IH"(2) s q key ws1 colon v g ws False comma by blast
    also have "\<dots> \<le> length ds" by (rule length_skip_ws)
    finally show ?thesis using len g by simp
  qed
qed


lemma lit_number_length: "lit_number s = Some (v, r) \<Longrightarrow> length r < length s"
proof -
  assume a: "lit_number s = Some (v, r)"
  let ?s1 = "if take 1 s = [0x2D] then drop 1 s else s"
  from a obtain c cs where s1: "?s1 = c # cs"
    by (cases ?s1) (auto simp add: lit_number_def)
  from a s1 obtain fr r1 ex where f: "match_frac (dropWhile is_digit cs) = (fr, r1)"
    and e: "match_exp r1 = (ex, r)"
    by (auto simp add: lit_number_def split: prod.splits if_splits)
  have "length r \<le> length r1" using e by (rule match_exp_length)
  also have "\<dots> \<le> length (dropWhile is_digit cs)" using f by (rule match_frac_length)
  also have "\<dots> \<le> length cs" by (rule length_dropWhile_le)
  also have "\<dots> < length ?s1" using s1 by simp
  also have "\<dots> \<le> length s" by simp
  finally show ?thesis .
qed

lemma lit_constant_length: "lit_constant s = Some (v, r) \<Longrightarrow> length r < length s"
proof -
  assume a: "lit_constant s = Some (v, r)"
  show ?thesis
  proof (cases "lit_number s = Some (v, r)")
    case True
    then show ?thesis by (rule lit_number_length)
  next
    case False
    with a have "s \<noteq> []" and "r = drop 4 s \<or> r = drop 5 s"
      by (auto simp add: lit_constant_def split: if_splits)
    then show ?thesis by (auto intro: drop_shorter)
  qed
qed

lemma lit_value_Cons:
  "lit_value (c # cs) =
     (if c = 0x27 \<or> c = 0x22 then map_option (\<lambda>(t, r). (PyStr t, r)) (lit_string c cs)
      else if c = 0x5B then
        (case skip_blank cs of
           [] \<Rightarrow> None
         | d # ds \<Rightarrow>
             (if d = 0x5D then Some (PyList [], ds)
              else map_option (\<lambda>(vs, r). (PyList vs, r)) (lit_list (d # ds))))
      else if c = 0x7B then
        (case skip_blank cs of
           [] \<Rightarrow> None
         | d # ds \<Rightarrow>
             (if d = 0x7D then Some (PyDict [], ds)
              else map_option (\<lambda>(pairs, r). (PyDict (dict_of_pairs pairs), r))
                     (lit_dict (d # ds))))
      else lit_constant (c # cs))"
  by (subst lit_value.simps) simp

lemma lit_value_length:
  "lit_value s = Some (v, r) \<Longrightarrow> length r < length s"
  "lit_list s = Some (vs, r) \<Longrightarrow> length r < length s"
  "lit_dict s = Some (kvs, r) \<Longrightarrow> length r < length s"
proof (induction s and s and s arbitrary: v r and vs r and kvs r
       rule: lit_value_lit_list_lit_dict.induct)
  case (1 s)
  from "1.prems" obtain c cs where s: "s = c # cs"
    by (cases s) (simp_all add: lit_value.simps [of "[]"])
  have eq: "lit_value (c # cs) = Some (v, r)" using "1.prems" s by simp
  consider (str) "c = 0x27 \<or> c = 0x22" | (arr) "\<not> (c = 0x27 \<or> c = 0x22)" "c = 0x5B"
    | (obj) "\<not> (c = 0x27 \<or> c = 0x22)" "c \<noteq> 0x5B" "c = 0x7B"
    | (atom) "\<not> (c = 0x27 \<or> c = 0x22)" "c \<noteq> 0x5B" "c \<noteq> 0x7B"
    by blast
  then show ?case
  proof cases
    case str
    with eq have "map_option (\<lambda>(t, r). (PyStr t, r)) (lit_string c cs) = Some (v, r)"
      by (simp add: lit_value_Cons)
    then obtain t where "lit_string c cs = Some (t, r)" by auto
    then have "length r < length cs" by (rule lit_string_length)
    then show ?thesis using s by simp
  next
    case arr
    from eq arr have body: "(case skip_blank cs of
           [] \<Rightarrow> None
         | d # ds \<Rightarrow>
             (if d = 0x5D then Some (PyList [], ds)
              else map_option (\<lambda>(vs, r). (PyList vs, r)) (lit_list (d # ds)))) = Some (v, r)"
      by (simp add: lit_value_Cons)
    then obtain d ds where ws: "skip_blank cs = d # ds" by (cases "skip_blank cs") auto
    then have len: "length ds < length cs" by (rule skip_blank_Cons_length)
    show ?thesis
    proof (cases "d = 0x5D")
      case True
      with body ws have "r = ds" by simp
      with len s show ?thesis by simp
    next
      case False
      with body ws obtain vs where "lit_list (d # ds) = Some (vs, r)" by auto
      then have "length r < length (d # ds)" by (rule "1.IH"(1) [OF s arr ws False])
      with len s show ?thesis by simp
    qed
  next
    case obj
    from eq obj have body: "(case skip_blank cs of
           [] \<Rightarrow> None
         | d # ds \<Rightarrow>
             (if d = 0x7D then Some (PyDict [], ds)
              else map_option (\<lambda>(pairs, r). (PyDict (dict_of_pairs pairs), r))
                     (lit_dict (d # ds)))) = Some (v, r)"
      by (simp add: lit_value_Cons)
    then obtain d ds where ws: "skip_blank cs = d # ds" by (cases "skip_blank cs") auto
    then have len: "length ds < length cs" by (rule skip_blank_Cons_length)
    show ?thesis
    proof (cases "d = 0x7D")
      case True
      with body ws have "r = ds" by simp
      with len s show ?thesis by simp
    next
      case False
      with body ws obtain pairs where "lit_dict (d # ds) = Some (pairs, r)" by auto
      then have "length r < length (d # ds)" by (rule "1.IH"(2) [OF s obj ws False])
      with len s show ?thesis by simp
    qed
  next
    case atom
    with eq have "lit_constant (c # cs) = Some (v, r)"
      by (simp add: lit_value_Cons)
    then show ?thesis using s by (auto dest: lit_constant_length)
  qed
next
  case (2 s)
  from "2.prems" obtain v r0 where v: "lit_value s = Some (v, r0)" and g: "length r0 < length s"
    and rest: "(case skip_blank r0 of
                [] \<Rightarrow> None
              | d # ds \<Rightarrow>
                  (if d = 0x5D then Some ([v], ds)
                   else if d = 0x2C
                   then map_option (\<lambda>(vs, r'). (v # vs, r')) (lit_list (skip_blank ds))
                   else None)) = Some (vs, r)"
    by (subst (asm) lit_list.simps) (auto split: option.splits if_splits)
  from rest obtain d ds where ws: "skip_blank r0 = d # ds" by (cases "skip_blank r0") auto
  then have len: "length ds < length r0" by (rule skip_blank_Cons_length)
  show ?case
  proof (cases "d = 0x5D")
    case True
    with rest ws have "r = ds" by simp
    with len g show ?thesis by simp
  next
    case False
    with rest ws have comma: "d = 0x2C" by (auto split: if_splits)
    with rest ws False obtain vs' where "lit_list (skip_blank ds) = Some (vs', r)" by auto
    then have "length r < length (skip_blank ds)"
      using "2.IH"(2) v g ws False comma by blast
    also have "\<dots> \<le> length ds" by (rule length_skip_blank)
    finally show ?thesis using len g by simp
  qed
next
  case (3 s)
  from "3.prems" obtain q s1 where s: "s = q # s1"
    by (cases s) (simp_all add: lit_dict.simps [of "[]"])
  from "3.prems" s have q: "\<not> (q \<noteq> 0x27 \<and> q \<noteq> 0x22)"
    by (subst (asm) lit_dict.simps) (auto split: if_splits)
  from "3.prems" s q obtain key r0 where key: "lit_string q s1 = Some (key, r0)"
    by (subst (asm) lit_dict.simps) (auto split: option.splits)
  from "3.prems" s q key obtain colon r1 where ws1: "skip_blank r0 = colon # r1"
    by (subst (asm) lit_dict.simps) (auto split: list.splits)
  from "3.prems" s q key ws1 have colon: "colon = 0x3A"
    by (subst (asm) lit_dict.simps) (auto split: if_splits)
  from "3.prems" s q key ws1 colon obtain v r2 where v: "lit_value (skip_blank r1) = Some (v, r2)"
    by (subst (asm) lit_dict.simps) (auto split: option.splits)
  from "3.prems" s q key ws1 colon v have g: "length r2 < length s"
    by (subst (asm) lit_dict.simps) (auto split: if_splits)
  from "3.prems" s q key ws1 colon v g have rest: "(case skip_blank r2 of
        [] \<Rightarrow> None
      | d # ds \<Rightarrow>
          (if d = 0x7D then Some ([(key, v)], ds)
           else if d = 0x2C
           then map_option (\<lambda>(pairs, r'). ((key, v) # pairs, r')) (lit_dict (skip_blank ds))
           else None)) = Some (kvs, r)"
    by (subst (asm) lit_dict.simps) auto
  from rest obtain d ds where ws: "skip_blank r2 = d # ds" by (cases "skip_blank r2") auto
  then have len: "length ds < length r2" by (rule skip_blank_Cons_length)
  show ?case
  proof (cases "d = 0x7D")
    case True
    with rest ws have "r = ds" by simp
    with len g show ?thesis by simp
  next
    case False
    with rest ws have comma: "d = 0x2C" by (auto split: if_splits)
    with rest ws False obtain kvs' where "lit_dict (skip_blank ds) = Some (kvs', r)" by auto
    then have "length r < length (skip_blank ds)"
      using "3.IH"(2) s q key ws1 colon v g ws False comma by blast
    also have "\<dots> \<le> length ds" by (rule length_skip_blank)
    finally show ?thesis using len g by simp
  qed
qed


text \<open>
  So the length tests in the definitions never fail: the list parsers satisfy their equation
  without the test, and in the object and dict parsers the test holds whenever it is reached.
\<close>

lemma parse_array_unguarded:
  "parse_array s =
     (case scan_once s of
        None \<Rightarrow> None
      | Some (v, r) \<Rightarrow>
          (case skip_ws r of
             [] \<Rightarrow> None
           | d # ds \<Rightarrow>
               (if d = 0x5D then Some ([v], ds)
                else if d = 0x2C
                then map_option (\<lambda>(vs, r'). (v # vs, r')) (parse_array (skip_ws ds))
                else None)))"
  by (subst parse_array.simps)
    (auto split: option.splits dest: scan_once_length(1) simp del: scan_once.simps parse_array.simps)

lemma lit_list_unguarded:
  "lit_list s =
     (case lit_value s of
        None \<Rightarrow> None
      | Some (v, r) \<Rightarrow>
          (case skip_blank r of
             [] \<Rightarrow> None
           | d # ds \<Rightarrow>
               (if d = 0x5D then Some ([v], ds)
                else if d = 0x2C
                then map_option (\<lambda>(vs, r'). (v # vs, r')) (lit_list (skip_blank ds))
                else None)))"
  by (subst lit_list.simps)
    (auto split: option.splits dest: lit_value_length(1) simp del: lit_value.simps lit_list.simps)

lemma parse_object_guard:
  assumes "py_scanstring s1 = Some (key, r)" and "skip_ws r = colon # r1"
    and "scan_once (skip_ws r1) = Some (v, r2)"
  shows "length r2 < length (q # s1)"
proof -
  have "length r2 < length (skip_ws r1)" using assms(3) by (rule scan_once_length(1))
  also have "\<dots> \<le> length r1" by (rule length_skip_ws)
  also have "\<dots> < length r" using assms(2) by (rule skip_ws_Cons_length)
  also have "\<dots> < length s1" using assms(1) by (rule py_scanstring_length)
  finally show ?thesis by simp
qed

lemma lit_dict_guard:
  assumes "lit_string q s1 = Some (key, r)" and "skip_blank r = colon # r1"
    and "lit_value (skip_blank r1) = Some (v, r2)"
  shows "length r2 < length (q # s1)"
proof -
  have "length r2 < length (skip_blank r1)" using assms(3) by (rule lit_value_length(1))
  also have "\<dots> \<le> length r1" by (rule length_skip_blank)
  also have "\<dots> < length r" using assms(2) by (rule skip_blank_Cons_length)
  also have "\<dots> < length s1" using assms(1) by (rule lit_string_length)
  finally show ?thesis by simp
qed

end
